theory Spec2Isabelle
  imports Complex_Main "HOL-Library.Word" "HOL-Library.Multiset" "HOL-Library.Sublist"
begin

section \<open>Values shared by the collectors\<close>

text \<open>
  The program is the Go command \<^verbatim>\<open>aws-ipv4-cost-viewer\<close>. Its collectors
  (\<^verbatim>\<open>ec2.go\<close>, \<^verbatim>\<open>eip.go\<close>, \<^verbatim>\<open>eni.go\<close>, \<^verbatim>\<open>lb.go\<close>) query one resource
  category in every region and \<^verbatim>\<open>ui.go\<close> joins the four categories.

  Conventions of the embedding.
  \<^item> A Go \<^verbatim>\<open>string\<close> is a \<open>string\<close>; a \<^verbatim>\<open>*string\<close> that the code tests against
    \<^verbatim>\<open>nil\<close> is a \<open>string option\<close>; a \<^verbatim>\<open>*string\<close> that the code dereferences
    without a test (\<^verbatim>\<open>*region.RegionName\<close>, \<^verbatim>\<open>*lb.DNSName\<close>, ...) is taken to be
    present and is a \<open>string\<close>.
  \<^item> A \<^verbatim>\<open>float64\<close> cost is a \<open>real\<close>: \<open>3.65\<close> is the rational \<open>365/100\<close>
    and sums are exact.
  \<^item> An error returned by a service is its message text. \<^verbatim>\<open>fmt.Errorf\<close> and
    \<^verbatim>\<open>fmt.Sprintf\<close> with \<^verbatim>\<open>%s\<close> and \<^verbatim>\<open>%v\<close> operands are string
    concatenation.
  \<^item> The services behind \<^verbatim>\<open>aws.Config\<close>, the DNS resolver and the metrics source
    are the fields of the record \<open>Config\<close>: each call is a function of its arguments
    for the duration of one scan.
\<close>

type_synonym region = string

text \<open>\<^verbatim>\<open>aws.ToString\<close>: the empty string for a nil pointer.\<close>

definition ToString :: "string option \<Rightarrow> string" where
  "ToString p = (case p of None \<Rightarrow> [] | Some s \<Rightarrow> s)"

text \<open>\<^verbatim>\<open>strings.Join(elems, sep)\<close>.\<close>

fun Join :: "string list \<Rightarrow> string \<Rightarrow> string" where
  "Join [] sep = []"
| "Join [x] sep = x"
| "Join (x # y # zs) sep = x @ sep @ Join (y # zs) sep"

text \<open>
  \<^verbatim>\<open>strings.Split(s, sep)\<close> for a non-empty separator: \<open>Cut\<close> finds the first
  occurrence of \<open>sep\<close> and returns the text before and after it; \<open>Split\<close> repeats
  the cut on the rest. The fuel is the length of the text, which bounds the number of
  cuts.
\<close>

fun Cut :: "string \<Rightarrow> string \<Rightarrow> (string \<times> string) option" where
  "Cut [] sep = (if sep = [] then Some ([], []) else None)"
| "Cut (c # cs) sep =
     (if prefix sep (c # cs) then Some ([], drop (length sep) (c # cs))
      else (case Cut cs sep of None \<Rightarrow> None | Some (before, after) \<Rightarrow> Some (c # before, after)))"

fun SplitN :: "nat \<Rightarrow> string \<Rightarrow> string \<Rightarrow> string list" where
  "SplitN 0 s sep = [s]"
| "SplitN (Suc n) s sep =
     (case Cut s sep of None \<Rightarrow> [s] | Some (before, after) \<Rightarrow> before # SplitN n after sep)"

definition Split :: "string \<Rightarrow> string \<Rightarrow> string list" where
  "Split s sep = SplitN (length s) s sep"

text \<open>
  An \<^verbatim>\<open>error\<close> value handed to the caller of a collector or of the coordinator.
  \<open>ErrorString m\<close> is an error whose text is \<open>m\<close>. The collectors build their
  combined error with \<^verbatim>\<open>fmt.Errorf(strings.Join(errors, "; "))\<close>, so the joined text
  is used as a format string with no operands: text without a percent sign is copied
  as it is, and a percent sign starts a verb that \<^verbatim>\<open>fmt\<close> renders as a
  missing-operand marker. That rendering is not modelled: \<open>BadFormat f\<close> stands for
  the error \<^verbatim>\<open>fmt.Errorf(f)\<close> of a text \<open>f\<close> that holds a percent sign.
\<close>

datatype error = ErrorString string | BadFormat string

definition Errorf0 :: "string \<Rightarrow> error" where
  "Errorf0 format = (if CHR ''%'' \<in> set format then BadFormat format else ErrorString format)"

subsection \<open>The service types, with the fields the code reads\<close>

record Tag =
  Key :: string
  Value :: string

record Instance =
  PublicIpAddress :: "string option"
  Tags :: "Tag list"
  StateName :: string
  InstanceId :: string
  VpcId :: string
  SubnetId :: string

type_synonym Reservation = "Instance list"

record Filter =
  Name :: string
  Values :: "string list"

record Address =
  PublicIp :: string
  InstanceId :: "string option"
  AssociationId :: "string option"
  AllocationId :: "string option"
  NetworkInterfaceId :: "string option"
  Tags :: "Tag list"

record NatGatewayAddress =
  AllocationId :: "string option"

record NatGateway =
  NatGatewayId :: "string option"
  NatGatewayAddresses :: "NatGatewayAddress list"

record NetworkInterfaceAssociation =
  PublicIp :: "string option"

record NetworkInterface =
  Association :: "NetworkInterfaceAssociation option"
  NetworkInterfaceId :: string

record LoadBalancer =
  DNSName :: string
  LoadBalancerArn :: string
  Type :: string

record LoadBalancerDescription =
  DNSName :: string
  LoadBalancerName :: string

text \<open>
  The one query of \<^verbatim>\<open>fetchProcessedBytes\<close>: a single \<^verbatim>\<open>MetricDataQuery\<close> with id
  \<^verbatim>\<open>m1\<close>, one dimension, a period in seconds and a statistic, over the seven days
  that end at the call. A result is the list of the values of one
  \<^verbatim>\<open>MetricDataResult\<close>.
\<close>

record MetricDataQuery =
  Namespace :: string
  MetricName :: string
  DimensionName :: string
  DimensionValue :: string
  Period :: nat
  Stat :: string

type_synonym MetricDataResult = "real list"

record Config =
  DescribeInstances :: "region \<Rightarrow> string + Reservation list"
  DescribeAddresses :: "region \<Rightarrow> Filter list \<Rightarrow> string + Address list"
  DescribeNatGateways :: "region \<Rightarrow> string + NatGateway list"
  DescribeNetworkInterfaces :: "region \<Rightarrow> string + NetworkInterface list"
  DescribeLoadBalancers :: "region \<Rightarrow> string + LoadBalancer list"
  DescribeClassicLoadBalancers :: "region \<Rightarrow> string + LoadBalancerDescription list"
  LookupIP :: "string \<Rightarrow> string + string list"
  GetMetricData :: "MetricDataQuery \<Rightarrow> string + MetricDataResult list"

subsection \<open>Tags (\<^verbatim>\<open>utils.go\<close>)\<close>

fun getTagValue :: "Tag list \<Rightarrow> string \<Rightarrow> string" where
  "getTagValue [] key = []"
| "getTagValue (tag # tags) key = (if Key tag = key then Value tag else getTagValue tags key)"

definition getNameTagValue :: "Tag list \<Rightarrow> string" where
  "getNameTagValue tags =
     (let nameTag = getTagValue tags ''Name'';
          nameTag = (if nameTag = [] then getTagValue tags ''aws:cloudformation:stack-name''
                     else nameTag);
          nameTag = (if nameTag = [] then getTagValue tags ''aws:autoscaling:groupName''
                     else nameTag)
      in nameTag)"

section \<open>The metrics query of a load balancer (\<^verbatim>\<open>lb.go\<close>)\<close>

text \<open>
  \<^verbatim>\<open>int(value)\<close> of a \<^verbatim>\<open>float64\<close> drops the fraction (towards zero); the Go
  \<^verbatim>\<open>int\<close> is the 64-bit signed integer, and \<^verbatim>\<open>totalBytes += int(value)\<close> wraps.
  (For a value beyond the 64-bit range Go leaves the conversion to the platform; here it
  wraps as well.)
\<close>

definition go_int :: "real \<Rightarrow> 64 word" where
  "go_int v = word_of_int (if 0 \<le> v then \<lfloor>v\<rfloor> else \<lceil>v\<rceil>)"

definition sumFirstResult :: "MetricDataResult list \<Rightarrow> 64 word" where
  "sumFirstResult results =
     (case results of [] \<Rightarrow> 0
      | values # _ \<Rightarrow> foldl (\<lambda>totalBytes v. totalBytes + go_int v) 0 values)"

text \<open>
  The \<^verbatim>\<open>switch\<close> on the kind chooses namespace, dimension and metric name; a kind
  outside the three has no query (the \<^verbatim>\<open>default\<close> branch returns at once).
\<close>

definition metricDataQuery :: "string \<Rightarrow> string \<Rightarrow> MetricDataQuery option" where
  "metricDataQuery lbIdentifier lbType =
     (if lbType = ''application'' then
        Some \<lparr>Namespace = ''AWS/ApplicationELB'', MetricName = ''ProcessedBytes'',
              DimensionName = ''LoadBalancer'', DimensionValue = lbIdentifier,
              Period = 3600, Stat = ''Sum''\<rparr>
      else if lbType = ''network'' then
        Some \<lparr>Namespace = ''AWS/NetworkELB'', MetricName = ''ProcessedBytes'',
              DimensionName = ''LoadBalancer'', DimensionValue = lbIdentifier,
              Period = 3600, Stat = ''Sum''\<rparr>
      else if lbType = ''classic'' then
        Some \<lparr>Namespace = ''AWS/ELB'', MetricName = ''EstimatedProcessedBytes'',
              DimensionName = ''LoadBalancerName'', DimensionValue = lbIdentifier,
              Period = 3600, Stat = ''Sum''\<rparr>
      else None)"

definition fetchProcessedBytes :: "Config \<Rightarrow> string \<Rightarrow> string \<Rightarrow> 64 word" where
  "fetchProcessedBytes cfg lbIdentifier lbType =
     (case metricDataQuery lbIdentifier lbType of
        None \<Rightarrow> - 1
      | Some query \<Rightarrow>
          (case GetMetricData cfg query of
             Inl err \<Rightarrow> 0
           | Inr results \<Rightarrow> sumFirstResult results))"

section \<open>Goroutines, channels and the wait group\<close>

text \<open>
  Every collector starts one goroutine per region and joins them through a
  \<^verbatim>\<open>sync.WaitGroup\<close>. The calls a goroutine makes to the services do not touch shared
  state, so a goroutine is the list of its shared-state operations, in program order:
  \<^item> \<open>Send r\<close>: \<^verbatim>\<open>resCh <- r\<close> on the collector's results channel;
  \<^item> \<open>SendErr e\<close>: \<^verbatim>\<open>errCh <- e\<close> on its errors channel;
  \<^item> \<open>Append r\<close>: \<^verbatim>\<open>mu.Lock(); all = append(all, r); mu.Unlock()\<close>;
  \<^item> \<open>Log m\<close>: \<^verbatim>\<open>log.Printf\<close> on the standard logger (the \<^verbatim>\<open>debug\<close> logger
    writes nothing unless the environment enables it and is left out);
  \<^item> \<open>Go p\<close>: \<^verbatim>\<open>wg.Add(1); go func() { defer wg.Done(); p }()\<close>;
  \<^item> \<open>Panic\<close>: the dereference of a nil pointer.
  When its list is empty the goroutine runs its deferred \<^verbatim>\<open>wg.Done()\<close> and ends.
\<close>

datatype 'r instr = Send 'r | SendErr string | Append 'r | Log string | Go "'r instr list" | Panic

type_synonym 'r prog = "'r instr list"

text \<open>
  The closing goroutine \<^verbatim>\<open>go func() { wg.Wait(); close(resCh); close(errCh) }()\<close>
  is at its wait, between the two closes, or finished. The calling goroutine is at
  \<^verbatim>\<open>wg.Wait()\<close> (\<^verbatim>\<open>fetchAllInstances\<close>), in \<^verbatim>\<open>for r := range resCh\<close>, in
  \<^verbatim>\<open>for err := range errCh\<close>, or has reached its \<^verbatim>\<open>return\<close>.
\<close>

datatype closer = AtWait | AtCloseErr | Finished

datatype caller = WgWait | RangeResults | RangeErrors | Returned

record 'r collector =
  tasks :: "'r prog list"
  wg :: nat
  resCap :: nat
  errCap :: nat
  resCh :: "'r list"
  errCh :: "string list"
  resClosed :: bool
  errClosed :: bool
  closer :: closer
  caller :: caller
  allRecs :: "'r list"
  errors :: "string list"
  logged :: "string list"
  panicked :: bool

text \<open>
  One operation of a goroutine on the shared state. A send on a channel with room in its
  buffer enqueues; a send on an unbuffered channel (capacity 0) needs the receiver to be
  waiting in the \<^verbatim>\<open>range\<close> over that channel, and hands the value over; otherwise
  the sender blocks (\<open>None\<close>). A send on a closed channel panics.
\<close>

fun exec :: "'r instr \<Rightarrow> 'r collector \<Rightarrow> 'r collector option" where
  "exec (Send r) s =
     (if resClosed s then Some (s\<lparr>panicked := True\<rparr>)
      else if length (resCh s) < resCap s then Some (s\<lparr>resCh := resCh s @ [r]\<rparr>)
      else if resCap s = 0 \<and> caller s = RangeResults then Some (s\<lparr>allRecs := allRecs s @ [r]\<rparr>)
      else None)"
| "exec (SendErr e) s =
     (if errClosed s then Some (s\<lparr>panicked := True\<rparr>)
      else if length (errCh s) < errCap s then Some (s\<lparr>errCh := errCh s @ [e]\<rparr>)
      else if errCap s = 0 \<and> caller s = RangeErrors then Some (s\<lparr>errors := errors s @ [e]\<rparr>)
      else None)"
| "exec (Append r) s = Some (s\<lparr>allRecs := allRecs s @ [r]\<rparr>)"
| "exec (Log m) s = Some (s\<lparr>logged := logged s @ [m]\<rparr>)"
| "exec (Go p) s = Some (s\<lparr>tasks := tasks s @ [p], wg := wg s + 1\<rparr>)"
| "exec Panic s = Some (s\<lparr>panicked := True\<rparr>)"

text \<open>
  Goroutine \<open>i\<close> of the pool takes its next operation, or, at the end of its list,
  runs \<^verbatim>\<open>wg.Done()\<close> (a panic on a zero counter) and leaves the pool.
\<close>

definition task_step :: "nat \<Rightarrow> 'r collector \<Rightarrow> 'r collector option" where
  "task_step i s =
     (if length (tasks s) \<le> i then None
      else
        (case tasks s ! i of
           [] \<Rightarrow>
             (if wg s = 0 then Some (s\<lparr>panicked := True\<rparr>)
              else Some (s\<lparr>tasks := take i (tasks s) @ drop (Suc i) (tasks s), wg := wg s - 1\<rparr>))
         | ins # rest \<Rightarrow>
             (case exec ins s of
                None \<Rightarrow> None
              | Some s' \<Rightarrow>
                  Some (s'\<lparr>tasks := take i (tasks s') @ rest # drop (Suc i) (tasks s')\<rparr>))))"

definition closer_step :: "'r collector \<Rightarrow> 'r collector option" where
  "closer_step s =
     (case closer s of
        AtWait \<Rightarrow>
          (if wg s = 0 then
             (if resClosed s then Some (s\<lparr>panicked := True\<rparr>)
              else Some (s\<lparr>resClosed := True, closer := AtCloseErr\<rparr>))
           else None)
      | AtCloseErr \<Rightarrow>
          (if errClosed s then Some (s\<lparr>panicked := True\<rparr>)
           else Some (s\<lparr>errClosed := True, closer := Finished\<rparr>))
      | Finished \<Rightarrow> None)"

definition caller_step :: "'r collector \<Rightarrow> 'r collector option" where
  "caller_step s =
     (case caller s of
        WgWait \<Rightarrow> (if wg s = 0 then Some (s\<lparr>caller := Returned\<rparr>) else None)
      | RangeResults \<Rightarrow>
          (case resCh s of
             r # rs \<Rightarrow> Some (s\<lparr>resCh := rs, allRecs := allRecs s @ [r]\<rparr>)
           | [] \<Rightarrow> (if resClosed s then Some (s\<lparr>caller := RangeErrors\<rparr>) else None))
      | RangeErrors \<Rightarrow>
          (case errCh s of
             e # es \<Rightarrow> Some (s\<lparr>errCh := es, errors := errors s @ [e]\<rparr>)
           | [] \<Rightarrow> (if errClosed s then Some (s\<lparr>caller := Returned\<rparr>) else None))
      | Returned \<Rightarrow> None)"

text \<open>
  The scheduler picks who moves next; a schedule is the list of its picks. \<open>step\<close> is
  \<open>None\<close> when the picked goroutine is blocked or does not exist, and nothing moves
  after a panic (the process is gone).
\<close>

datatype pick = Task nat | Closer | Caller

definition step :: "pick \<Rightarrow> 'r collector \<Rightarrow> 'r collector option" where
  "step c s =
     (if panicked s then None
      else (case c of Task i \<Rightarrow> task_step i s | Closer \<Rightarrow> closer_step s | Caller \<Rightarrow> caller_step s))"

fun run :: "pick list \<Rightarrow> 'r collector \<Rightarrow> 'r collector option" where
  "run [] s = Some s"
| "run (c # cs) s = (case step c s of None \<Rightarrow> None | Some s' \<Rightarrow> run cs s')"

text \<open>The picks that can move in a state, and a state in which the call hangs.\<close>

definition enabled :: "'r collector \<Rightarrow> pick list" where
  "enabled s =
     filter (\<lambda>c. step c s \<noteq> None) (map Task [0..<length (tasks s)] @ [Closer, Caller])"

definition stuck :: "'r collector \<Rightarrow> bool" where
  "stuck s = (caller s \<noteq> Returned \<and> enabled s = [])"

text \<open>
  The state after the \<^verbatim>\<open>for _, region := range regions\<close> loop has started one
  goroutine per region (\<^verbatim>\<open>wg.Add(1)\<close> each) and, in the channel collectors, the
  closing goroutine.
\<close>

definition start :: "nat \<Rightarrow> nat \<Rightarrow> closer \<Rightarrow> caller \<Rightarrow> 'r prog list \<Rightarrow> 'r collector" where
  "start rc ec cl ca ps =
     \<lparr>tasks = ps, wg = length ps, resCap = rc, errCap = ec, resCh = [], errCh = [],
      resClosed = False, errClosed = False, closer = cl, caller = ca, allRecs = [],
      errors = [], logged = [], panicked = False\<rparr>"

text \<open>
  The \<^verbatim>\<open>return\<close> of the channel collectors:
  \<^verbatim>\<open>if len(errors) > 0 { return all, fmt.Errorf(strings.Join(errors, "; ")) }; return all, nil\<close>.
\<close>

definition joined :: "'r collector \<Rightarrow> 'r list \<times> error option" where
  "joined s =
     (if length (errors s) > 0 then (allRecs s, Some (Errorf0 (Join (errors s) ''; '')))
      else (allRecs s, None))"

text \<open>A call returns \<open>res\<close> when some schedule takes it to its \<^verbatim>\<open>return\<close> with \<open>res\<close>.\<close>

definition returns :: "'r collector \<Rightarrow> ('r collector \<Rightarrow> 'a) \<Rightarrow> 'a \<Rightarrow> bool" where
  "returns init ret res =
     (\<exists>sched s. run sched init = Some s \<and> caller s = Returned \<and> ret s = res)"

section \<open>The four collectors\<close>

subsection \<open>Instances (\<^verbatim>\<open>ec2.go\<close>)\<close>

record EC2InstanceInfo =
  Region :: string
  NameTag :: string
  InstanceState :: string
  InstanceID :: string
  PublicIP :: string
  VPCID :: string
  SubnetID :: string
  Cost :: real

definition fetchInstancesInRegion :: "Config \<Rightarrow> region \<Rightarrow> string + Instance list" where
  "fetchInstancesInRegion conf regionName =
     (case DescribeInstances conf regionName of
        Inl err \<Rightarrow> Inl (''failed to describe instances in region '' @ regionName @ '': '' @ err)
      | Inr reservations \<Rightarrow>
          Inr (filter (\<lambda>instance. case PublicIpAddress instance of
                                     None \<Rightarrow> False | Some ip \<Rightarrow> ip \<noteq> [])
                 (concat reservations)))"

text \<open>
  The goroutine of one region. A failed fetch is written to the standard logger and the
  goroutine returns; nothing is handed to the caller.
\<close>

definition instanceInfo :: "region \<Rightarrow> Instance \<Rightarrow> EC2InstanceInfo instr" where
  "instanceInfo region instance =
     (case PublicIpAddress instance of
        None \<Rightarrow> Panic
      | Some ip \<Rightarrow>
          Append \<lparr>Region = region, NameTag = getNameTagValue (Instance.Tags instance),
                  InstanceState = StateName instance, InstanceID = Instance.InstanceId instance,
                  PublicIP = ip, VPCID = VpcId instance, SubnetID = SubnetId instance,
                  Cost = 3.65\<rparr>)"

definition instancesTask :: "Config \<Rightarrow> region \<Rightarrow> EC2InstanceInfo prog" where
  "instancesTask config region =
     (case fetchInstancesInRegion config region of
        Inl err \<Rightarrow> [Log (''Failed to fetch instances in region '' @ region @ '': '' @ err)]
      | Inr instances \<Rightarrow> map (instanceInfo region) instances)"

text \<open>
  \<^verbatim>\<open>fetchAllInstances\<close> has no channels and no closing goroutine: the caller waits at
  \<^verbatim>\<open>wg.Wait()\<close> and then executes \<^verbatim>\<open>return allInstances, nil\<close>.
\<close>

definition fetchAllInstances :: "Config \<Rightarrow> region list \<Rightarrow> EC2InstanceInfo collector" where
  "fetchAllInstances config regions = start 0 0 Finished WgWait (map (instancesTask config) regions)"

definition instancesReturn :: "EC2InstanceInfo collector \<Rightarrow> EC2InstanceInfo list \<times> error option" where
  "instancesReturn s = (allRecs s, None)"

subsection \<open>Elastic IPs (\<^verbatim>\<open>eip.go\<close>)\<close>

record EIPInfo =
  Region :: string
  PublicIP :: string
  AssociationTarget :: string
  NameTag :: string
  Cost :: real

definition fetchEIPsInRegion :: "Config \<Rightarrow> region \<Rightarrow> string + Address list" where
  "fetchEIPsInRegion conf regionName =
     (case DescribeAddresses conf regionName [] of
        Inl err \<Rightarrow> Inl (''failed to describe EIPs in region '' @ regionName @ '': '' @ err)
      | Inr addresses \<Rightarrow> Inr addresses)"

text \<open>
  The two nested loops over the NAT gateways and their addresses return at the first
  gateway that has an address with the allocation id.
\<close>

definition natGatewayOf :: "NatGateway list \<Rightarrow> string \<Rightarrow> NatGateway option" where
  "natGatewayOf natGateways allocationId =
     find (\<lambda>natGateway.
             list_ex (\<lambda>natAddress. case NatGatewayAddress.AllocationId natAddress of
                                      None \<Rightarrow> False | Some a \<Rightarrow> a = allocationId)
               (NatGatewayAddresses natGateway))
       natGateways"

definition describeEIPByAssociationID :: "Config \<Rightarrow> string \<Rightarrow> region \<Rightarrow> string + string" where
  "describeEIPByAssociationID conf associationID regionName =
     (case DescribeAddresses conf regionName
             [\<lparr>Name = ''association-id'', Values = [associationID]\<rparr>] of
        Inl err \<Rightarrow> Inl err
      | Inr [] \<Rightarrow> Inr []
      | Inr (address # _) \<Rightarrow>
          (if Address.InstanceId address \<noteq> None then
             Inr (''Instance'' @ '': '' @ ToString (Address.InstanceId address))
           else if Address.NetworkInterfaceId address \<noteq> None then
             (case DescribeNatGateways conf regionName of
                Inl natErr \<Rightarrow> Inl natErr
              | Inr natGateways \<Rightarrow>
                  (case natGatewayOf natGateways (ToString (Address.AllocationId address)) of
                     Some natGateway \<Rightarrow>
                       Inr (''NAT Gateway'' @ '': '' @ ToString (NatGatewayId natGateway))
                   | None \<Rightarrow> Inr []))
           else Inr []))"

text \<open>
  The loop over the addresses of one region: an address attached to an instance is
  skipped, a failed association lookup is sent to the errors channel and ends the
  goroutine, and every other address is sent with one fee, or two when no association
  target was found.
\<close>

definition eipInfo :: "region \<Rightarrow> Address \<Rightarrow> string \<Rightarrow> EIPInfo" where
  "eipInfo region eip associationTarget =
     \<lparr>Region = region, PublicIP = Address.PublicIp eip,
      AssociationTarget = associationTarget,
      NameTag = getNameTagValue (Address.Tags eip),
      Cost = (if associationTarget = [] then 3.65 + 3.65 else 3.65)\<rparr>"

fun eipLoop :: "Config \<Rightarrow> region \<Rightarrow> Address list \<Rightarrow> EIPInfo prog" where
  "eipLoop config region [] = []"
| "eipLoop config region (eip # eips) =
     (if Address.InstanceId eip \<noteq> None then eipLoop config region eips
      else
        (case describeEIPByAssociationID config (ToString (AssociationId eip)) region of
           Inl err \<Rightarrow>
             [SendErr (''failed to describe EIP associations in region '' @ region @ '': '' @ err)]
         | Inr associationTarget \<Rightarrow>
             Send (eipInfo region eip associationTarget) # eipLoop config region eips))"

definition eipsTask :: "Config \<Rightarrow> region \<Rightarrow> EIPInfo prog" where
  "eipsTask config region =
     (case fetchEIPsInRegion config region of
        Inl err \<Rightarrow> [SendErr (''failed to fetch EIPs in region '' @ region @ '': '' @ err)]
      | Inr eips \<Rightarrow> eipLoop config region eips)"

text \<open>
  \<^verbatim>\<open>eipCh := make(chan EIPInfo, len(regions)*10)\<close> and
  \<^verbatim>\<open>errCh := make(chan string, len(regions))\<close>.
\<close>

definition fetchAllEIPs :: "Config \<Rightarrow> region list \<Rightarrow> EIPInfo collector" where
  "fetchAllEIPs config regions =
     start (length regions * 10) (length regions) AtWait RangeResults
       (map (eipsTask config) regions)"

subsection \<open>Network interfaces (\<^verbatim>\<open>eni.go\<close>)\<close>

record ENIInfo =
  Region :: string
  PublicIP :: string
  ENIID :: string
  Cost :: real

definition fetchENIsInRegion :: "Config \<Rightarrow> region \<Rightarrow> string + NetworkInterface list" where
  "fetchENIsInRegion conf regionName =
     (case DescribeNetworkInterfaces conf regionName of
        Inl err \<Rightarrow> Inl (''failed to describe ENIs in region '' @ regionName @ '': '' @ err)
      | Inr networkInterfaces \<Rightarrow>
          Inr (filter (\<lambda>eni. case Association eni of
                               None \<Rightarrow> False
                             | Some association \<Rightarrow>
                                 (case NetworkInterfaceAssociation.PublicIp association of
                                    None \<Rightarrow> False | Some ip \<Rightarrow> ip \<noteq> []))
                 networkInterfaces))"

definition eniInfo :: "region \<Rightarrow> NetworkInterface \<Rightarrow> ENIInfo instr" where
  "eniInfo region eni =
     (case Association eni of
        None \<Rightarrow> Panic
      | Some association \<Rightarrow>
          (case NetworkInterfaceAssociation.PublicIp association of
             None \<Rightarrow> Panic
           | Some ip \<Rightarrow>
               Send \<lparr>Region = region, PublicIP = ip,
                     ENIID = NetworkInterface.NetworkInterfaceId eni, Cost = 3.65\<rparr>))"

definition enisTask :: "Config \<Rightarrow> region \<Rightarrow> ENIInfo prog" where
  "enisTask config region =
     (case fetchENIsInRegion config region of
        Inl err \<Rightarrow> [SendErr (''Failed to fetch ENIs in region '' @ region @ '': '' @ err)]
      | Inr enis \<Rightarrow> map (eniInfo region) enis)"

definition fetchAllENIs :: "Config \<Rightarrow> region list \<Rightarrow> ENIInfo collector" where
  "fetchAllENIs config regions =
     start (length regions * 10) (length regions) AtWait RangeResults
       (map (enisTask config) regions)"

subsection \<open>Load balancers (\<^verbatim>\<open>lb.go\<close>)\<close>

record LoadBalancerInfo =
  Region :: string
  Type :: string
  DNSName :: string
  IPCount :: int
  TrafficLastWeek :: "64 word"
  PublicIPs :: "string list"
  Cost :: real

definition fetchLoadBalancers :: "Config \<Rightarrow> region \<Rightarrow> string + LoadBalancer list" where
  "fetchLoadBalancers client region = DescribeLoadBalancers client region"

definition fetchClassicLoadBalancers ::
  "Config \<Rightarrow> region \<Rightarrow> string + LoadBalancerDescription list" where
  "fetchClassicLoadBalancers client region = DescribeClassicLoadBalancers client region"

text \<open>
  \<^verbatim>\<open>ips, _ := net.LookupIP(dnsName)\<close>: the error of the lookup is discarded and a
  failed lookup leaves no addresses.
\<close>

definition countIPsFromDNS :: "Config \<Rightarrow> string \<Rightarrow> string list" where
  "countIPsFromDNS cfg dnsName = (case LookupIP cfg dnsName of Inl err \<Rightarrow> [] | Inr ips \<Rightarrow> ips)"

text \<open>The metrics identifier of an application or network load balancer.\<close>

definition lbIdentifierOf :: "LoadBalancer \<Rightarrow> string" where
  "lbIdentifierOf lb =
     (if LoadBalancer.Type lb = ''application'' \<or> LoadBalancer.Type lb = ''network'' then
        (case Split (LoadBalancerArn lb) ''loadbalancer/'' of
           _ # part # _ \<Rightarrow> part
         | _ \<Rightarrow> LoadBalancerArn lb)
      else LoadBalancerArn lb)"

definition lbInfo :: "Config \<Rightarrow> region \<Rightarrow> LoadBalancer \<Rightarrow> LoadBalancerInfo" where
  "lbInfo cfg region lb =
     (let ips = countIPsFromDNS cfg (LoadBalancer.DNSName lb) in
      \<lparr>Region = region, Type = LoadBalancer.Type lb, DNSName = LoadBalancer.DNSName lb,
       IPCount = int (length ips),
       TrafficLastWeek = fetchProcessedBytes cfg (lbIdentifierOf lb) (LoadBalancer.Type lb),
       PublicIPs = ips, Cost = 3.65 * real (length ips)\<rparr>)"

definition classicLbInfo :: "Config \<Rightarrow> region \<Rightarrow> LoadBalancerDescription \<Rightarrow> LoadBalancerInfo" where
  "classicLbInfo cfg region lb =
     (let ips = countIPsFromDNS cfg (LoadBalancerDescription.DNSName lb) in
      \<lparr>Region = region, Type = ''classic'', DNSName = LoadBalancerDescription.DNSName lb,
       IPCount = int (length ips),
       TrafficLastWeek = fetchProcessedBytes cfg (LoadBalancerName lb) ''classic'',
       PublicIPs = ips, Cost = 3.65 * real (length ips)\<rparr>)"

text \<open>
  The goroutine of one region sends an error and returns when either listing fails;
  otherwise it starts one goroutine per load balancer, which resolves the name, queries
  the traffic and sends the record.
\<close>

definition lbsTask :: "Config \<Rightarrow> region \<Rightarrow> LoadBalancerInfo prog" where
  "lbsTask cfg region =
     (case fetchLoadBalancers cfg region of
        Inl err \<Rightarrow> [SendErr (''failed to fetch LoadBalancers in region '' @ region @ '': '' @ err)]
      | Inr lbs \<Rightarrow>
          (case fetchClassicLoadBalancers cfg region of
             Inl err \<Rightarrow>
               [SendErr (''failed to fetch Classic LoadBalancers in region '' @ region @ '': '' @ err)]
           | Inr classicLbs \<Rightarrow>
               map (\<lambda>lb. Go [Send (lbInfo cfg region lb)]) lbs
               @ map (\<lambda>lb. Go [Send (classicLbInfo cfg region lb)]) classicLbs))"

text \<open>
  \<^verbatim>\<open>lbInfoCh := make(chan LoadBalancerInfo)\<close> and \<^verbatim>\<open>errCh := make(chan error)\<close>:
  both channels are unbuffered.
\<close>

definition fetchAllLoadBalancers :: "Config \<Rightarrow> region list \<Rightarrow> LoadBalancerInfo collector" where
  "fetchAllLoadBalancers cfg regions =
     start 0 0 AtWait RangeResults (map (lbsTask cfg) regions)"

section \<open>The category tables (\<^verbatim>\<open>ui.go\<close>)\<close>

text \<open>
  A table function calls its collector, gives up on an error, sorts the records by
  address, writes one row per record and adds up the costs. The table of the model is
  the list of records in row order. \<^verbatim>\<open>sortStructsByIP\<close> rests on
  \<^verbatim>\<open>sort.Slice\<close> and \<^verbatim>\<open>net.ParseIP\<close> of the Go library and is a parameter
  \<open>sortByIP\<close> here; the library promises only that it permutes the slice.
\<close>

definition createAndPopulateInstancesTable ::
  "(EC2InstanceInfo list \<Rightarrow> EC2InstanceInfo list) \<Rightarrow> EC2InstanceInfo list \<times> error option \<Rightarrow>
   error + (EC2InstanceInfo list \<times> int \<times> real)" where
  "createAndPopulateInstancesTable sortByIP fetched =
     (case fetched of
        (allInstances, Some err) \<Rightarrow> Inl err
      | (allInstances, None) \<Rightarrow>
          (let rows = sortByIP allInstances in
           Inr (rows, int (length rows),
                foldl (\<lambda>totalCost instanceInfo. totalCost + EC2InstanceInfo.Cost instanceInfo) 0 rows)))"

definition createAndPopulateEIPsTable ::
  "(EIPInfo list \<Rightarrow> EIPInfo list) \<Rightarrow> EIPInfo list \<times> error option \<Rightarrow>
   error + (EIPInfo list \<times> int \<times> real)" where
  "createAndPopulateEIPsTable sortByIP fetched =
     (case fetched of
        (allEIPs, Some err) \<Rightarrow> Inl err
      | (allEIPs, None) \<Rightarrow>
          (let rows = sortByIP allEIPs in
           Inr (rows, int (length rows),
                foldl (\<lambda>totalCost eipInfo. totalCost + EIPInfo.Cost eipInfo) 0 rows)))"

definition createAndPopulateENIsTable ::
  "(ENIInfo list \<Rightarrow> ENIInfo list) \<Rightarrow> ENIInfo list \<times> error option \<Rightarrow>
   error + (ENIInfo list \<times> int \<times> real)" where
  "createAndPopulateENIsTable sortByIP fetched =
     (case fetched of
        (allENIs, Some err) \<Rightarrow> Inl err
      | (allENIs, None) \<Rightarrow>
          (let rows = sortByIP allENIs in
           Inr (rows, int (length rows),
                foldl (\<lambda>totalCost eniInfo. totalCost + ENIInfo.Cost eniInfo) 0 rows)))"

definition createAndPopulateLBTable ::
  "(LoadBalancerInfo list \<Rightarrow> LoadBalancerInfo list) \<Rightarrow> LoadBalancerInfo list \<times> error option \<Rightarrow>
   error + (LoadBalancerInfo list \<times> int \<times> real)" where
  "createAndPopulateLBTable sortByIP fetched =
     (case fetched of
        (allLBs, Some err) \<Rightarrow> Inl err
      | (allLBs, None) \<Rightarrow>
          (let rows = sortByIP allLBs in
           Inr (rows,
                foldl (\<lambda>totalIPCount lbInfo. totalIPCount + IPCount lbInfo) 0 rows,
                foldl (\<lambda>totalCost lbInfo. totalCost + LoadBalancerInfo.Cost lbInfo) 0 rows)))"

section \<open>The coordinator (\<^verbatim>\<open>ui.go\<close>)\<close>

text \<open>
  What a category's goroutine sends on its channel: the table (nil with an error), the
  count, the cost and the error. The table widget itself is outside the model and is a
  type parameter.
\<close>

record 't ChannelData =
  table :: "'t option"
  count :: int
  cost :: real
  err :: "error option"

text \<open>
  The \<^verbatim>\<open>select\<close> of \<^verbatim>\<open>unpackChannelData\<close> on one channel has three outcomes: a
  message arrives, the channel is found closed with no message, or
  \<^verbatim>\<open>time.After(ch.timeout)\<close> fires first. A channel of the model is that outcome
  together with the text \<^verbatim>\<open>%v\<close> prints for the channel value, which for a Go channel
  is its address.
\<close>

datatype 'a select = Received 'a | ChannelClosed | Timeout

record 't Chan =
  pointer :: string
  delivers :: "'t ChannelData select"

definition receiveOrAbort :: "'t Chan \<Rightarrow> error + 't ChannelData" where
  "receiveOrAbort ch =
     (case delivers ch of
        ChannelClosed \<Rightarrow> Inl (ErrorString ''channel was closed before data was received'')
      | Timeout \<Rightarrow>
          Inl (ErrorString (''timeout waiting for data from '' @ pointer ch @ '' channel''))
      | Received data \<Rightarrow> (case err data of Some e \<Rightarrow> Inl e | None \<Rightarrow> Inr data))"

text \<open>
  The loop of \<^verbatim>\<open>unpackChannelData\<close> runs over the fixed slice
  \<^verbatim>\<open>{eniCh, ec2Ch, lbCh, eipCh}\<close> and returns from inside at the first channel that
  does not deliver a message without error.
\<close>

definition unpackChannelData ::
  "'t Chan \<Rightarrow> 't Chan \<Rightarrow> 't Chan \<Rightarrow> 't Chan \<Rightarrow>
   error + ('t option list \<times> int list \<times> real list)" where
  "unpackChannelData ec2Ch lbCh eipCh eniCh =
     (case receiveOrAbort eniCh of Inl e \<Rightarrow> Inl e | Inr eniData \<Rightarrow>
      (case receiveOrAbort ec2Ch of Inl e \<Rightarrow> Inl e | Inr ec2Data \<Rightarrow>
       (case receiveOrAbort lbCh of Inl e \<Rightarrow> Inl e | Inr lbData \<Rightarrow>
        (case receiveOrAbort eipCh of Inl e \<Rightarrow> Inl e | Inr eipData \<Rightarrow>
           Inr ([table eniData, table ec2Data, table lbData, table eipData],
                [count eniData, count ec2Data, count lbData, count eipData],
                [cost eniData, cost ec2Data, cost lbData, cost eipData])))))"

text \<open>
  \<^verbatim>\<open>fetchTableData\<close>: the one message a category's goroutine sends, from what its
  table function returned.
\<close>

definition fetchTableData :: "error + ('t \<times> int \<times> real) \<Rightarrow> 't ChannelData" where
  "fetchTableData fetched =
     (case fetched of
        Inl e \<Rightarrow> \<lparr>table = None, count = 0, cost = 0, err = Some e\<rparr>
      | Inr (t, n, c) \<Rightarrow> \<lparr>table = Some t, count = n, cost = c, err = None\<rparr>)"

text \<open>A category whose channel delivered a message without error.\<close>

definition delivered_ok :: "'t Chan \<Rightarrow> bool" where
  "delivered_ok ch = (case delivers ch of Received data \<Rightarrow> err data = None | _ \<Rightarrow> False)"

text \<open>
  \<^verbatim>\<open>ipCostsView\<close> starts one goroutine per category; each calls
  \<^verbatim>\<open>fetchTableData\<close> with the table function of its category and sends the one
  message on the channel of the category. All four channels carry a \<^verbatim>\<open>*tview.Table\<close>;
  the table of the model is the list of the records of its category, so the table type
  of the coordinator is the sum of the four. \<open>categoryChan\<close> is the channel of a
  category whose message arrives at the \<^verbatim>\<open>select\<close>.
\<close>

datatype Table =
  InstancesTable "EC2InstanceInfo list"
  | LBTable "LoadBalancerInfo list"
  | EIPsTable "EIPInfo list"
  | ENIsTable "ENIInfo list"

definition categoryData ::
  "('rows \<Rightarrow> Table) \<Rightarrow> error + ('rows \<times> int \<times> real) \<Rightarrow> Table ChannelData" where
  "categoryData widget fetched =
     fetchTableData
       (case fetched of Inl e \<Rightarrow> Inl e | Inr (rows, n, c) \<Rightarrow> Inr (widget rows, n, c))"

definition categoryChan ::
  "string \<Rightarrow> ('rows \<Rightarrow> Table) \<Rightarrow> error + ('rows \<times> int \<times> real) \<Rightarrow> Table Chan" where
  "categoryChan p widget fetched = \<lparr>pointer = p, delivers = Received (categoryData widget fetched)\<rparr>"
section \<open>Predicates and sample inputs for the properties\<close>

text \<open>A metrics answer that reports no traffic: no result at all, or a first result whose values are all zero.\<close>

definition zero_traffic :: "MetricDataResult list \<Rightarrow> bool" where
  "zero_traffic results = (case results of [] \<Rightarrow> True | values # _ \<Rightarrow> list_all (\<lambda>v. v = 0) values)"

text \<open>The error of \<^verbatim>\<open>unpackChannelData\<close> for a channel closed without a message.\<close>

definition closedError :: error where
  "closedError = ErrorString ''channel was closed before data was received''"

text \<open>
  Sample accounts: one in which every listing is empty, every name resolves to no address
  and the metrics source reports two zero values, and the same account with a metrics
  source that refuses every query.
\<close>

definition quietConfig :: Config where
  "quietConfig = \<lparr>DescribeInstances = (\<lambda>r. Inr []), DescribeAddresses = (\<lambda>r f. Inr []),
     DescribeNatGateways = (\<lambda>r. Inr []), DescribeNetworkInterfaces = (\<lambda>r. Inr []),
     DescribeLoadBalancers = (\<lambda>r. Inr []), DescribeClassicLoadBalancers = (\<lambda>r. Inr []),
     LookupIP = (\<lambda>n. Inr []), GetMetricData = (\<lambda>q. Inr [[0, 0]])\<rparr>"

definition throttledConfig :: Config where
  "throttledConfig = quietConfig\<lparr>GetMetricData := (\<lambda>q. Inl ''Throttling: Rate exceeded'')\<rparr>"

text \<open>
  Sample category channels, named by the address \<^verbatim>\<open>%v\<close> prints: one that delivered a
  table, one closed without a message, one that stays silent past its timeout and one
  that delivered a failure.
\<close>

definition delivered :: "string \<Rightarrow> string \<Rightarrow> int \<Rightarrow> real \<Rightarrow> string Chan" where
  "delivered p t n c =
     \<lparr>pointer = p, delivers = Received (fetchTableData (Inr (t, n, c)))\<rparr>"

definition closedChan :: "string \<Rightarrow> string Chan" where
  "closedChan p = \<lparr>pointer = p, delivers = ChannelClosed\<rparr>"

definition silentChan :: "string \<Rightarrow> string Chan" where
  "silentChan p = \<lparr>pointer = p, delivers = Timeout\<rparr>"

definition failedChan :: "string \<Rightarrow> error \<Rightarrow> string Chan" where
  "failedChan p e = \<lparr>pointer = p, delivers = Received (fetchTableData (Inl e))\<rparr>"

section \<open>A sample account\<close>

text \<open>
  An account with two regions. In \<^verbatim>\<open>us-east-1\<close> there are two instances (one with a
  public address), an idle Elastic IP and one that backs a NAT gateway, two network
  interfaces (one with a public address) and an application load balancer whose name
  resolves to three addresses. Every listing in \<^verbatim>\<open>eu-west-1\<close> is refused.
\<close>

definition webInstance :: Instance where
  "webInstance =
     \<lparr>PublicIpAddress = Some ''198.51.100.7'', Instance.Tags = [\<lparr>Key = ''Name'', Value = ''web''\<rparr>],
      StateName = ''running'', Instance.InstanceId = ''i-0aa1'', VpcId = ''vpc-1'', SubnetId = ''subnet-1''\<rparr>"

definition batchInstance :: Instance where
  "batchInstance =
     \<lparr>PublicIpAddress = None, Instance.Tags = [], StateName = ''running'', Instance.InstanceId = ''i-0bb2'',
      VpcId = ''vpc-1'', SubnetId = ''subnet-2''\<rparr>"

definition idleEip :: Address where
  "idleEip =
     \<lparr>Address.PublicIp = ''203.0.113.10'', Address.InstanceId = None, AssociationId = None,
      Address.AllocationId = Some ''eipalloc-1'', Address.NetworkInterfaceId = None, Address.Tags = []\<rparr>"

definition natEip :: Address where
  "natEip =
     \<lparr>Address.PublicIp = ''203.0.113.11'', Address.InstanceId = None, AssociationId = Some ''eipassoc-2'',
      Address.AllocationId = Some ''eipalloc-2'', Address.NetworkInterfaceId = Some ''eni-0c2'',
      Address.Tags = [\<lparr>Key = ''Name'', Value = ''egress''\<rparr>]\<rparr>"


definition egressGateway :: NatGateway where
  "egressGateway =
     \<lparr>NatGatewayId = Some ''nat-0a1'', NatGatewayAddresses = [\<lparr>NatGatewayAddress.AllocationId = Some ''eipalloc-2''\<rparr>]\<rparr>"

definition publicEni :: NetworkInterface where
  "publicEni =
     \<lparr>Association = Some \<lparr>NetworkInterfaceAssociation.PublicIp = Some ''198.51.100.7''\<rparr>, NetworkInterface.NetworkInterfaceId = ''eni-0c1''\<rparr>"

definition privateEni :: NetworkInterface where
  "privateEni = \<lparr>Association = None, NetworkInterface.NetworkInterfaceId = ''eni-0c4''\<rparr>"

definition webAlb :: LoadBalancer where
  "webAlb =
     \<lparr>LoadBalancer.DNSName = ''web-1.us-east-1.elb.amazonaws.com'',
      LoadBalancerArn = ''arn:aws:elasticloadbalancing:us-east-1:1:loadbalancer/app/web/50dc'',
      LoadBalancer.Type = ''application''\<rparr>"

definition sampleConfig :: Config where
  "sampleConfig =
     \<lparr>DescribeInstances =
        (\<lambda>r. if r = ''us-east-1'' then Inr [[webInstance, batchInstance]] else Inl ''AuthFailure''),
      DescribeAddresses =
        (\<lambda>r filters.
           if r = ''us-east-1'' then
             (if filters = [] then Inr [idleEip, natEip]
              else if filters = [\<lparr>Name = ''association-id'', Values = [''eipassoc-2'']\<rparr>]
                then Inr [natEip]
              else Inr [])
           else Inl ''AuthFailure''),
      DescribeNatGateways =
        (\<lambda>r. if r = ''us-east-1'' then Inr [egressGateway] else Inl ''AuthFailure''),
      DescribeNetworkInterfaces =
        (\<lambda>r. if r = ''us-east-1'' then Inr [publicEni, privateEni] else Inl ''AuthFailure''),
      DescribeLoadBalancers =
        (\<lambda>r. if r = ''us-east-1'' then Inr [webAlb] else Inl ''AuthFailure''),
      DescribeClassicLoadBalancers =
        (\<lambda>r. if r = ''us-east-1'' then Inr [] else Inl ''AuthFailure''),
      LookupIP =
        (\<lambda>name. if name = ''web-1.us-east-1.elb.amazonaws.com''
           then Inr [''192.0.2.1'', ''192.0.2.2'', ''192.0.2.3''] else Inl ''no such host''),
      GetMetricData = (\<lambda>query. Inr [[1024, 2048]])\<rparr>"

text \<open>
  Region lists and schedules for the sample account: each schedule takes the call of its
  collector to its \<^verbatim>\<open>return\<close>.
\<close>

definition bothRegions :: "region list" where
  "bothRegions = [''us-east-1'', ''eu-west-1'']"

definition instancesSchedule :: "pick list" where
  "instancesSchedule = [Task 0, Task 0, Task 0, Task 0, Caller]"

definition eipsSchedule :: "pick list" where
  "eipsSchedule =
     [Task 0, Task 1, Task 0, Caller, Task 0, Task 0, Closer, Caller, Closer, Caller, Caller, Caller]"

definition enisSchedule :: "pick list" where
  "enisSchedule = [Task 1, Task 1, Task 0, Task 0, Closer, Closer, Caller, Caller, Caller, Caller]"

definition lbsSchedule :: "pick list" where
  "lbsSchedule = [Task 0, Task 0, Task 0, Task 0, Closer, Closer, Caller, Caller]"

text \<open>
  Variants of the sample account: one whose NAT gateway listing is refused, one whose
  resolver and metrics source fail every call, and one whose resolver answers every
  name with the same address twice.
\<close>

definition natOutageConfig :: Config where
  "natOutageConfig = sampleConfig\<lparr>DescribeNatGateways := (\<lambda>r. Inl ''RequestLimitExceeded'')\<rparr>"

definition natOutageSchedule :: "pick list" where
  "natOutageSchedule = [Task 0, Task 0, Task 0, Closer, Closer, Caller, Caller, Caller, Caller]"







section \<open>What a pool of goroutines will send\<close>

text \<open>
  The records, error messages and log lines that a goroutine will still hand over,
  counted through the goroutines it is going to start, and the amount of work left in
  it. With what the channels and the caller already hold, these give the quantities a
  step of the scheduler conserves.
\<close>

fun instr_recs :: "'r instr \<Rightarrow> 'r multiset" and prog_recs :: "'r prog \<Rightarrow> 'r multiset" where
  "instr_recs (Send r) = {#r#}"
| "instr_recs (SendErr e) = {#}"
| "instr_recs (Append r) = {#r#}"
| "instr_recs (Log m) = {#}"
| "instr_recs (Go p) = prog_recs p"
| "instr_recs Panic = {#}"
| "prog_recs [] = {#}"
| "prog_recs (i # p) = instr_recs i + prog_recs p"

fun instr_errs :: "'r instr \<Rightarrow> string multiset" and prog_errs :: "'r prog \<Rightarrow> string multiset" where
  "instr_errs (Send r) = {#}"
| "instr_errs (SendErr e) = {#e#}"
| "instr_errs (Append r) = {#}"
| "instr_errs (Log m) = {#}"
| "instr_errs (Go p) = prog_errs p"
| "instr_errs Panic = {#}"
| "prog_errs [] = {#}"
| "prog_errs (i # p) = instr_errs i + prog_errs p"

fun instr_logs :: "'r instr \<Rightarrow> string multiset" and prog_logs :: "'r prog \<Rightarrow> string multiset" where
  "instr_logs (Send r) = {#}"
| "instr_logs (SendErr e) = {#}"
| "instr_logs (Append r) = {#}"
| "instr_logs (Log m) = {#m#}"
| "instr_logs (Go p) = prog_logs p"
| "instr_logs Panic = {#}"
| "prog_logs [] = {#}"
| "prog_logs (i # p) = instr_logs i + prog_logs p"

fun instr_safe :: "'r instr \<Rightarrow> bool" and prog_safe :: "'r prog \<Rightarrow> bool" where
  "instr_safe (Go p) = prog_safe p"
| "instr_safe Panic = False"
| "instr_safe (Send r) = True"
| "instr_safe (SendErr e) = True"
| "instr_safe (Append r) = True"
| "instr_safe (Log m) = True"
| "prog_safe [] = True"
| "prog_safe (i # p) = (instr_safe i \<and> prog_safe p)"

fun instr_local :: "'r instr \<Rightarrow> bool" where
  "instr_local (Append r) = True"
| "instr_local (Log m) = True"
| "instr_local _ = False"

fun instr_size :: "'r instr \<Rightarrow> nat" and prog_size :: "'r prog \<Rightarrow> nat" where
  "instr_size (Go p) = 2 + prog_size p"
| "instr_size (Send r) = 2"
| "instr_size (SendErr e) = 2"
| "instr_size (Append r) = 1"
| "instr_size (Log m) = 1"
| "instr_size Panic = 1"
| "prog_size [] = 0"
| "prog_size (i # p) = instr_size i + prog_size p"

definition pool_recs :: "'r prog list \<Rightarrow> 'r multiset" where
  "pool_recs ps = sum_list (map prog_recs ps)"

definition pool_errs :: "'r prog list \<Rightarrow> string multiset" where
  "pool_errs ps = sum_list (map prog_errs ps)"

definition pool_logs :: "'r prog list \<Rightarrow> string multiset" where
  "pool_logs ps = sum_list (map prog_logs ps)"

definition pool_size :: "'r prog list \<Rightarrow> nat" where
  "pool_size ps = sum_list (map (\<lambda>p. Suc (prog_size p)) ps)"

definition all_recs :: "'r collector \<Rightarrow> 'r multiset" where
  "all_recs s = mset (allRecs s) + mset (resCh s) + pool_recs (tasks s)"

definition all_errs :: "'r collector \<Rightarrow> string multiset" where
  "all_errs s = mset (errors s) + mset (errCh s) + pool_errs (tasks s)"

definition all_logs :: "'r collector \<Rightarrow> string multiset" where
  "all_logs s = mset (logged s) + pool_logs (tasks s)"

text \<open>The goroutines an operation starts, and the three ways a goroutine step can go.\<close>

definition spawned :: "'r instr \<Rightarrow> 'r prog list" where
  "spawned ins = (case ins of Go p \<Rightarrow> [p] | _ \<Rightarrow> [])"

lemma exec_tasks: "exec ins s = Some s' \<Longrightarrow> tasks s' = tasks s @ spawned ins"
  by (cases ins) (auto simp: spawned_def split: if_splits)

lemma task_step_cases:
  assumes "task_step i s = Some s'"
  obtains (fin) before after where "tasks s = before @ [] # after" "i = length before"
      "wg s \<noteq> 0" "s' = s\<lparr>tasks := before @ after, wg := wg s - 1\<rparr>"
  | (underflow) before after where "tasks s = before @ [] # after" "i = length before"
      "wg s = 0" "s' = s\<lparr>panicked := True\<rparr>"
  | (op) before ins rest after s'' where "tasks s = before @ (ins # rest) # after"
      "i = length before" "exec ins s = Some s''"
      "s' = s''\<lparr>tasks := before @ rest # after @ spawned ins\<rparr>"
proof -
  from assms have i: "i < length (tasks s)"
    by (auto simp: task_step_def split: if_splits)
  define before where "before = take i (tasks s)"
  define after where "after = drop (Suc i) (tasks s)"
  have split: "tasks s = before @ (tasks s ! i) # after" and len: "i = length before"
    using i by (simp_all add: before_def after_def id_take_nth_drop [symmetric])
  show thesis
  proof (cases "tasks s ! i")
    case Nil
    from split Nil have t: "tasks s = before @ [] # after" by simp
    show thesis
    proof (cases "wg s = 0")
      case True
      with assms i Nil have "s' = s\<lparr>panicked := True\<rparr>"
        by (simp add: task_step_def)
      with t len True show thesis by (rule underflow)
    next
      case False
      with assms i Nil have "s' = s\<lparr>tasks := before @ after, wg := wg s - 1\<rparr>"
        by (simp add: task_step_def before_def after_def)
      with t len False show thesis by (rule fin)
    qed
  next
    case (Cons ins rest)
    from split Cons have t: "tasks s = before @ (ins # rest) # after" by simp
    from assms i Cons obtain s'' where e: "exec ins s = Some s''"
      and s': "s' = s''\<lparr>tasks := take i (tasks s'') @ rest # drop (Suc i) (tasks s'')\<rparr>"
      by (auto simp: task_step_def split: option.splits)
    from exec_tasks [OF e] i
    have "take i (tasks s'') = before" "drop (Suc i) (tasks s'') = after @ spawned ins"
      by (simp_all add: before_def after_def)
    with s' have "s' = s''\<lparr>tasks := before @ rest # after @ spawned ins\<rparr>" by simp
    with t len e show thesis by (rule op)
  qed
qed


lemma pool_recs_simps [simp]:
  "pool_recs [] = {#}" "pool_recs (p # ps) = prog_recs p + pool_recs ps"
  "pool_recs (ps @ qs) = pool_recs ps + pool_recs qs"
  by (simp_all add: pool_recs_def)

lemma pool_errs_simps [simp]:
  "pool_errs [] = {#}" "pool_errs (p # ps) = prog_errs p + pool_errs ps"
  "pool_errs (ps @ qs) = pool_errs ps + pool_errs qs"
  by (simp_all add: pool_errs_def)

lemma pool_logs_simps [simp]:
  "pool_logs [] = {#}" "pool_logs (p # ps) = prog_logs p + pool_logs ps"
  "pool_logs (ps @ qs) = pool_logs ps + pool_logs qs"
  by (simp_all add: pool_logs_def)

lemma pool_size_simps [simp]:
  "pool_size [] = 0" "pool_size (p # ps) = Suc (prog_size p) + pool_size ps"
  "pool_size (ps @ qs) = pool_size ps + pool_size qs"
  by (simp_all add: pool_size_def)

lemma exec_panicked: "exec ins s = Some s' \<Longrightarrow> panicked s \<Longrightarrow> panicked s'"
  by (cases ins) (auto split: if_splits)

lemma exec_all_recs:
  "exec ins s = Some s' \<Longrightarrow> \<not> panicked s' \<Longrightarrow>
   mset (allRecs s') + mset (resCh s') + pool_recs (spawned ins)
     = mset (allRecs s) + mset (resCh s) + instr_recs ins"
  by (cases ins) (auto simp: spawned_def split: if_splits)

lemma exec_all_errs:
  "exec ins s = Some s' \<Longrightarrow> \<not> panicked s' \<Longrightarrow>
   mset (errors s') + mset (errCh s') + pool_errs (spawned ins)
     = mset (errors s) + mset (errCh s) + instr_errs ins"
  by (cases ins) (auto simp: spawned_def split: if_splits)

lemma exec_all_logs:
  "exec ins s = Some s' \<Longrightarrow> \<not> panicked s' \<Longrightarrow>
   mset (logged s') + pool_logs (spawned ins) = mset (logged s) + instr_logs ins"
  by (cases ins) (auto simp: spawned_def split: if_splits)

lemma task_step_conserves:
  assumes "task_step i s = Some s'" "\<not> panicked s'"
  shows "all_recs s' = all_recs s" "all_errs s' = all_errs s" "all_logs s' = all_logs s"
  using assms(1)
proof (atomize (full), cases rule: task_step_cases)
  case (fin before after)
  then show "all_recs s' = all_recs s \<and> all_errs s' = all_errs s \<and> all_logs s' = all_logs s"
    by (simp add: all_recs_def all_errs_def all_logs_def)
next
  case (underflow before after)
  with assms(2) show "all_recs s' = all_recs s \<and> all_errs s' = all_errs s \<and> all_logs s' = all_logs s"
    by simp
next
  case (op before ins rest after s'')
  from op(4) assms(2) have np: "\<not> panicked s''" by simp
  from exec_all_recs [OF op(3) np] exec_all_errs [OF op(3) np] exec_all_logs [OF op(3) np] op(1,4)
  show "all_recs s' = all_recs s \<and> all_errs s' = all_errs s \<and> all_logs s' = all_logs s"
    by (simp add: all_recs_def all_errs_def all_logs_def ac_simps)
qed

lemma closer_step_conserves:
  "closer_step s = Some s' \<Longrightarrow>
   all_recs s' = all_recs s \<and> all_errs s' = all_errs s \<and> all_logs s' = all_logs s"
  by (auto simp: closer_step_def all_recs_def all_errs_def all_logs_def
      split: closer.splits if_splits)

lemma caller_step_conserves:
  "caller_step s = Some s' \<Longrightarrow>
   all_recs s' = all_recs s \<and> all_errs s' = all_errs s \<and> all_logs s' = all_logs s"
  by (auto simp: caller_step_def all_recs_def all_errs_def all_logs_def
      split: caller.splits list.splits if_splits)

lemma step_conserves:
  "step c s = Some s' \<Longrightarrow> \<not> panicked s' \<Longrightarrow>
   all_recs s' = all_recs s \<and> all_errs s' = all_errs s \<and> all_logs s' = all_logs s"
  by (cases c)
    (auto simp: step_def task_step_conserves closer_step_conserves caller_step_conserves
      split: if_splits)

lemma step_panicked: "step c s = Some s' \<Longrightarrow> \<not> panicked s"
  by (simp add: step_def split: if_splits)

lemma run_append: "run (cs @ ds) s = (case run cs s of None \<Rightarrow> None | Some s' \<Rightarrow> run ds s')"
  by (induction cs arbitrary: s) (auto split: option.splits)

lemma run_not_panicked_before:
  "run sched s = Some s' \<Longrightarrow> \<not> panicked s' \<Longrightarrow> \<not> panicked s"
proof (induction sched arbitrary: s)
  case Nil
  then show ?case by simp
next
  case (Cons c cs)
  then obtain s1 where "step c s = Some s1" "run cs s1 = Some s'"
    by (auto split: option.splits)
  with Cons show ?case by (auto dest: step_panicked)
qed

lemma run_conserves:
  "run sched s = Some s' \<Longrightarrow> \<not> panicked s' \<Longrightarrow>
   all_recs s' = all_recs s \<and> all_errs s' = all_errs s \<and> all_logs s' = all_logs s"
proof (induction sched arbitrary: s)
  case Nil
  then show ?case by simp
next
  case (Cons c cs)
  then obtain s1 where s1: "step c s = Some s1" "run cs s1 = Some s'"
    by (auto split: option.splits)
  from run_not_panicked_before [OF s1(2) Cons.prems(2)] have "\<not> panicked s1" .
  with step_conserves [OF s1(1)] Cons.IH [OF s1(2) Cons.prems(2)] show ?case by simp
qed

section \<open>Invariants of a channel collector\<close>

text \<open>
  While goroutines are alive the wait group counts them, the closing goroutine is at
  its wait, both channels are open and the caller is in the range over the results;
  the channels are closed in order once the pool is empty, and the caller leaves each
  range only over a closed and drained channel.
\<close>

definition chan_inv :: "'r collector \<Rightarrow> bool" where
  "chan_inv s =
     (\<not> panicked s \<and> wg s = length (tasks s) \<and> list_all prog_safe (tasks s) \<and>
      length (errCh s) \<le> errCap s \<and>
      (case closer s of
         AtWait \<Rightarrow> \<not> resClosed s \<and> \<not> errClosed s
       | AtCloseErr \<Rightarrow> tasks s = [] \<and> resClosed s \<and> \<not> errClosed s
       | Finished \<Rightarrow> tasks s = [] \<and> resClosed s \<and> errClosed s) \<and>
      (case caller s of
         WgWait \<Rightarrow> False
       | RangeResults \<Rightarrow> errors s = []
       | RangeErrors \<Rightarrow> resClosed s \<and> resCh s = []
       | Returned \<Rightarrow> resClosed s \<and> errClosed s \<and> resCh s = [] \<and> errCh s = []))"

definition fit :: "'r collector \<Rightarrow> bool" where
  "fit s = (length (errCh s) + size (pool_errs (tasks s)) \<le> errCap s)"

definition overfull :: "'r collector \<Rightarrow> bool" where
  "overfull s = (errCap s < length (errCh s) + size (pool_errs (tasks s)) \<and>
     caller s = RangeResults \<and> closer s = AtWait)"

lemma exec_frame:
  "exec ins s = Some s' \<Longrightarrow>
   closer s' = closer s \<and> caller s' = caller s \<and> resClosed s' = resClosed s \<and>
   errClosed s' = errClosed s \<and> resCap s' = resCap s \<and> errCap s' = errCap s \<and>
   wg s' = wg s + length (spawned ins)"
  by (cases ins) (auto simp: spawned_def split: if_splits)

lemma exec_open:
  "exec ins s = Some s' \<Longrightarrow> \<not> resClosed s \<Longrightarrow> \<not> errClosed s \<Longrightarrow> instr_safe ins \<Longrightarrow>
   panicked s' = panicked s"
  by (cases ins) (auto split: if_splits)

lemma exec_errCh:
  "exec ins s = Some s' \<Longrightarrow> length (errCh s) \<le> errCap s \<Longrightarrow> length (errCh s') \<le> errCap s"
  by (cases ins) (auto split: if_splits)

lemma exec_errors:
  "exec ins s = Some s' \<Longrightarrow> caller s = RangeResults \<Longrightarrow> errors s' = errors s"
  by (cases ins) (auto split: if_splits)

lemma spawned_safe: "instr_safe ins \<Longrightarrow> list_all prog_safe (spawned ins)"
  by (cases ins) (simp_all add: spawned_def)

lemma chan_inv_working:
  "chan_inv s \<Longrightarrow> tasks s \<noteq> [] \<Longrightarrow>
   closer s = AtWait \<and> caller s = RangeResults \<and> \<not> resClosed s \<and> \<not> errClosed s \<and> errors s = []"
  by (cases "closer s"; cases "caller s") (auto simp: chan_inv_def)

lemma chan_inv_task_step:
  assumes "task_step i s = Some s'" "chan_inv s"
  shows "chan_inv s'"
  using assms(1)
proof (cases rule: task_step_cases)
  case (fin before after)
  with chan_inv_working [OF assms(2)] assms(2) show ?thesis
    by (simp add: chan_inv_def)
next
  case (underflow before after)
  with assms(2) show ?thesis by (simp add: chan_inv_def)
next
  case (op before ins rest after s'')
  from op(1) have ne: "tasks s \<noteq> []" by simp
  note w = chan_inv_working [OF assms(2) ne]
  from assms(2) op(1) have safe: "instr_safe ins" "list_all prog_safe (before @ rest # after)"
    and base: "\<not> panicked s" "wg s = length (tasks s)" "length (errCh s) \<le> errCap s"
    by (simp_all add: chan_inv_def)
  from exec_frame [OF op(3)] exec_open [OF op(3)] exec_errCh [OF op(3) base(3)]
    exec_errors [OF op(3)] w safe base spawned_safe [OF safe(1)] op(1,4)
  show ?thesis by (simp add: chan_inv_def)
qed

lemma chan_inv_closer_step:
  assumes "closer_step s = Some s'" "chan_inv s"
  shows "chan_inv s'"
proof (cases "closer s")
  case AtWait
  with assms have "wg s = 0" "s' = s\<lparr>resClosed := True, closer := AtCloseErr\<rparr>"
    by (auto simp: closer_step_def chan_inv_def split: if_splits)
  with assms(2) AtWait show ?thesis
    by (cases "caller s") (auto simp: chan_inv_def)
next
  case AtCloseErr
  with assms have "s' = s\<lparr>errClosed := True, closer := Finished\<rparr>"
    by (auto simp: closer_step_def chan_inv_def split: if_splits)
  with assms(2) AtCloseErr show ?thesis
    by (cases "caller s") (auto simp: chan_inv_def)
next
  case Finished
  with assms show ?thesis by (simp add: closer_step_def)
qed

lemma chan_inv_caller_step:
  assumes "caller_step s = Some s'" "chan_inv s"
  shows "chan_inv s'"
proof (cases "caller s")
  case WgWait
  with assms show ?thesis by (simp add: chan_inv_def)
next
  case RangeResults
  show ?thesis
  proof (cases "resCh s")
    case Nil
    with assms RangeResults have "resClosed s" "s' = s\<lparr>caller := RangeErrors\<rparr>"
      by (auto simp: caller_step_def split: if_splits)
    with assms(2) RangeResults Nil show ?thesis
      by (cases "closer s") (auto simp: chan_inv_def)
  next
    case (Cons r rs)
    with assms RangeResults have "s' = s\<lparr>resCh := rs, allRecs := allRecs s @ [r]\<rparr>"
      by (auto simp: caller_step_def)
    with assms(2) RangeResults show ?thesis
      by (cases "closer s") (auto simp: chan_inv_def)
  qed
next
  case RangeErrors
  show ?thesis
  proof (cases "errCh s")
    case Nil
    with assms RangeErrors have "errClosed s" "s' = s\<lparr>caller := Returned\<rparr>"
      by (auto simp: caller_step_def split: if_splits)
    with assms(2) RangeErrors Nil show ?thesis
      by (cases "closer s") (auto simp: chan_inv_def)
  next
    case (Cons e es)
    with assms RangeErrors have "s' = s\<lparr>errCh := es, errors := errors s @ [e]\<rparr>"
      by (auto simp: caller_step_def)
    with assms(2) RangeErrors Cons show ?thesis
      by (cases "closer s") (auto simp: chan_inv_def)
  qed
next
  case Returned
  with assms show ?thesis by (simp add: caller_step_def)
qed

lemma chan_inv_step: "step c s = Some s' \<Longrightarrow> chan_inv s \<Longrightarrow> chan_inv s'"
  by (cases c)
    (auto simp: step_def chan_inv_task_step chan_inv_closer_step chan_inv_caller_step
      split: if_splits)

lemma chan_inv_run: "run sched s = Some s' \<Longrightarrow> chan_inv s \<Longrightarrow> chan_inv s'"
  by (induction sched arbitrary: s) (auto split: option.splits dest: chan_inv_step)


subsection \<open>errors channel occupancy\<close>

definition occupancy :: "'r collector \<Rightarrow> nat" where
  "occupancy s = length (errCh s) + size (pool_errs (tasks s))"

lemma exec_occupancy:
  "exec ins s = Some s' \<Longrightarrow> caller s = RangeResults \<Longrightarrow> \<not> panicked s' \<Longrightarrow>
   length (errCh s') + size (pool_errs (spawned ins)) = length (errCh s) + size (instr_errs ins)"
  by (cases ins) (auto simp: spawned_def split: if_splits)

lemma task_step_occupancy:
  assumes "task_step i s = Some s'" "chan_inv s"
  shows "occupancy s' = occupancy s \<and> errCap s' = errCap s"
  using assms(1)
proof (cases rule: task_step_cases)
  case (fin before after)
  then show ?thesis by (simp add: occupancy_def)
next
  case (underflow before after)
  then show ?thesis by (simp add: occupancy_def)
next
  case (op before ins rest after s'')
  from op(1) have ne: "tasks s \<noteq> []" by simp
  note w = chan_inv_working [OF assms(2) ne]
  from chan_inv_task_step [OF assms] have "\<not> panicked s'" by (simp add: chan_inv_def)
  with op(4) have np: "\<not> panicked s''" by simp
  from w have c: "caller s = RangeResults" by simp
  from exec_occupancy [OF op(3) c np] exec_frame [OF op(3)] op(1,4)
  show ?thesis by (simp add: occupancy_def)
qed

lemma closer_step_occupancy:
  "closer_step s = Some s' \<Longrightarrow> occupancy s' = occupancy s \<and> errCap s' = errCap s"
  by (cases "closer s") (auto simp: closer_step_def occupancy_def split: if_splits)

lemma caller_step_occupancy:
  "caller_step s = Some s' \<Longrightarrow> occupancy s' \<le> occupancy s \<and> errCap s' = errCap s"
  by (cases "caller s"; cases "errCh s"; cases "resCh s")
    (auto simp: caller_step_def occupancy_def split: if_splits)

lemma caller_step_occupancy_results:
  "caller_step s = Some s' \<Longrightarrow> caller s = RangeResults \<Longrightarrow> occupancy s' = occupancy s"
  by (cases "resCh s") (auto simp: caller_step_def occupancy_def split: if_splits)

lemma fit_step:
  assumes "step c s = Some s'" "chan_inv s" "fit s"
  shows "fit s'"
proof -
  from assms(1,2) have "occupancy s' \<le> occupancy s \<and> errCap s' = errCap s"
    by (cases c)
      (auto simp: step_def split: if_splits
        dest: task_step_occupancy closer_step_occupancy caller_step_occupancy)
  with assms(3) show ?thesis by (simp add: fit_def occupancy_def)
qed

lemma fit_run: "run sched s = Some s' \<Longrightarrow> chan_inv s \<Longrightarrow> fit s \<Longrightarrow> fit s' \<and> chan_inv s'"
proof (induction sched arbitrary: s)
  case Nil
  then show ?case by simp
next
  case (Cons c cs)
  then obtain s1 where s1: "step c s = Some s1" "run cs s1 = Some s'"
    by (auto split: option.splits)
  from Cons.IH [OF s1(2) chan_inv_step [OF s1(1) Cons.prems(2)] fit_step [OF s1(1) Cons.prems(2,3)]]
  show ?case .
qed

subsection \<open>a call whose errors do not fit never returns\<close>

lemma overfull_tasks: "overfull s \<Longrightarrow> length (errCh s) \<le> errCap s \<Longrightarrow> tasks s \<noteq> []"
  by (auto simp: overfull_def)

lemma overfull_step:
  assumes "step c s = Some s'" "chan_inv s" "overfull s"
  shows "overfull s'"
proof -
  from assms(2) have le: "length (errCh s) \<le> errCap s" and wg: "wg s = length (tasks s)"
    by (simp_all add: chan_inv_def)
  from overfull_tasks [OF assms(3) le] have ne: "tasks s \<noteq> []" .
  from assms(3) have o: "errCap s < occupancy s" "caller s = RangeResults" "closer s = AtWait"
    by (simp_all add: overfull_def occupancy_def)
  show ?thesis
  proof (cases c)
    case (Task i)
    with assms(1) have t: "task_step i s = Some s'" by (simp add: step_def split: if_splits)
    from t have "caller s' = caller s \<and> closer s' = closer s"
      by (cases rule: task_step_cases) (auto dest: exec_frame)
    with task_step_occupancy [OF t assms(2)] o show ?thesis
      by (simp add: overfull_def occupancy_def)
  next
    case Closer
    with assms(1) o wg ne show ?thesis
      by (auto simp: step_def closer_step_def split: if_splits)
  next
    case Caller
    with assms(1) have t: "caller_step s = Some s'" by (simp add: step_def split: if_splits)
    from assms(2) o ne have "\<not> resClosed s" by (simp add: chan_inv_def)
    with t o have "caller s' = RangeResults \<and> closer s' = AtWait \<and> errCap s' = errCap s"
      by (cases "resCh s") (auto simp: caller_step_def)
    with caller_step_occupancy_results [OF t o(2)] o show ?thesis
      by (simp add: overfull_def occupancy_def)
  qed
qed

lemma overfull_run:
  "run sched s = Some s' \<Longrightarrow> chan_inv s \<Longrightarrow> overfull s \<Longrightarrow> overfull s' \<and> chan_inv s'"
proof (induction sched arbitrary: s)
  case Nil
  then show ?case by simp
next
  case (Cons c cs)
  then obtain s1 where s1: "step c s = Some s1" "run cs s1 = Some s'"
    by (auto split: option.splits)
  from Cons.IH [OF s1(2) chan_inv_step [OF s1(1) Cons.prems(2)] overfull_step [OF s1(1) Cons.prems(2,3)]]
  show ?case .
qed


subsection \<open>every step uses up work\<close>

definition work :: "'r collector \<Rightarrow> nat" where
  "work s =
     pool_size (tasks s) + length (resCh s) + length (errCh s)
     + (case closer s of AtWait \<Rightarrow> 2 | AtCloseErr \<Rightarrow> 1 | Finished \<Rightarrow> 0)
     + (case caller s of WgWait \<Rightarrow> 1 | RangeResults \<Rightarrow> 2 | RangeErrors \<Rightarrow> 1 | Returned \<Rightarrow> 0)
     + (if panicked s then 0 else 1)"

lemma exec_work:
  "exec ins s = Some s' \<Longrightarrow> \<not> panicked s \<Longrightarrow>
   pool_size (spawned ins) + length (resCh s') + length (errCh s') + (if panicked s' then 0 else 1)
     < instr_size ins + length (resCh s) + length (errCh s) + 1"
  by (cases ins) (auto simp: spawned_def split: if_splits)

lemma task_step_work:
  assumes "task_step i s = Some s'" "\<not> panicked s"
  shows "work s' < work s"
  using assms(1)
proof (cases rule: task_step_cases)
  case (fin before after)
  then show ?thesis by (simp add: work_def)
next
  case (underflow before after)
  with assms(2) show ?thesis by (simp add: work_def)
next
  case (op before ins rest after s'')
  from exec_work [OF op(3) assms(2)] exec_frame [OF op(3)] op(1,4) assms(2)
  show ?thesis by (simp add: work_def)
qed

lemma closer_step_work: "closer_step s = Some s' \<Longrightarrow> \<not> panicked s \<Longrightarrow> work s' < work s"
  by (cases "closer s") (auto simp: closer_step_def work_def split: if_splits)

lemma caller_step_work: "caller_step s = Some s' \<Longrightarrow> \<not> panicked s \<Longrightarrow> work s' < work s"
  by (cases "caller s"; cases "resCh s"; cases "errCh s")
    (auto simp: caller_step_def work_def split: if_splits)

lemma step_work: "step c s = Some s' \<Longrightarrow> work s' < work s"
  by (cases c)
    (auto simp: step_def split: if_splits dest: task_step_work closer_step_work caller_step_work)

lemma run_work: "run sched s = Some s' \<Longrightarrow> length sched + work s' \<le> work s"
proof (induction sched arbitrary: s)
  case Nil
  then show ?case by simp
next
  case (Cons c cs)
  then obtain s1 where s1: "step c s = Some s1" "run cs s1 = Some s'"
    by (auto split: option.splits)
  from Cons.IH [OF s1(2)] step_work [OF s1(1)] show ?case by simp
qed

subsection \<open>enabled picks\<close>

lemma enabled_iff: "enabled s \<noteq> [] \<longleftrightarrow> (\<exists>c. step c s \<noteq> None)"
proof
  assume "enabled s \<noteq> []"
  then obtain c where "c \<in> set (enabled s)" by (cases "enabled s") auto
  then show "\<exists>c. step c s \<noteq> None"
    unfolding enabled_def by (auto simp del: filter.simps)
next
  assume "\<exists>c. step c s \<noteq> None"
  then obtain c where c: "step c s \<noteq> None" by blast
  have "c \<in> set (map Task [0..<length (tasks s)] @ [Closer, Caller])"
  proof (cases c)
    case (Task i)
    with c have "i < length (tasks s)"
      by (auto simp: step_def task_step_def split: if_splits)
    with Task show ?thesis by simp
  qed simp_all
  with c show "enabled s \<noteq> []"
    by (auto simp: enabled_def filter_empty_conv)
qed

lemma stuck_iff: "stuck s \<longleftrightarrow> caller s \<noteq> Returned \<and> (\<forall>c. step c s = None)"
  using enabled_iff [of s] by (auto simp: stuck_def)

subsection \<open>a call whose errors fit is never blocked\<close>

lemma task_progress:
  assumes "chan_inv s" "fit s" "tasks s = t # ts"
  shows "step (Task 0) s \<noteq> None \<or> step Caller s \<noteq> None"
proof -
  from assms(3) have ne: "tasks s \<noteq> []" by simp
  note w = chan_inv_working [OF assms(1) ne]
  from assms(1) have np: "\<not> panicked s" and wg: "wg s = length (tasks s)"
    by (simp_all add: chan_inv_def)
  show ?thesis
  proof (cases t)
    case Nil
    with assms(3) np wg show ?thesis by (simp add: step_def task_step_def)
  next
    case (Cons ins rest)
    show ?thesis
    proof (cases ins)
      case (Send r)
      show ?thesis
      proof (cases "resCh s = []")
        case True
        with Send Cons assms(3) np w show ?thesis
          by (simp add: step_def task_step_def)
      next
        case False
        with np w show ?thesis
          by (cases "resCh s") (simp_all add: step_def caller_step_def)
      qed
    next
      case (SendErr e)
      with Cons assms(2,3) have "length (errCh s) < errCap s" by (simp add: fit_def)
      with SendErr Cons assms(3) np w show ?thesis
        by (simp add: step_def task_step_def)
    qed (use Cons assms(3) np in \<open>simp_all add: step_def task_step_def\<close>)
  qed
qed

lemma chan_progress:
  assumes "chan_inv s" "fit s" "caller s \<noteq> Returned"
  shows "\<exists>c. step c s \<noteq> None"
proof (cases "tasks s")
  case (Cons t ts)
  from task_progress [OF assms(1,2) Cons] show ?thesis by blast
next
  case Nil
  with assms(1) have np: "\<not> panicked s" and wg: "wg s = 0" by (simp_all add: chan_inv_def)
  show ?thesis
  proof (cases "closer s")
    case AtWait
    with assms(1) np wg have "step Closer s \<noteq> None"
      by (simp add: step_def closer_step_def chan_inv_def)
    then show ?thesis by blast
  next
    case AtCloseErr
    with assms(1) np have "step Closer s \<noteq> None"
      by (simp add: step_def closer_step_def chan_inv_def)
    then show ?thesis by blast
  next
    case Finished
    with assms(1) have cl: "resClosed s" "errClosed s" by (simp_all add: chan_inv_def)
    from assms(1,3) have "caller s = RangeResults \<or> caller s = RangeErrors"
      by (cases "caller s") (simp_all add: chan_inv_def)
    with cl np have "step Caller s \<noteq> None"
      by (cases "resCh s"; cases "errCh s") (auto simp: step_def caller_step_def)
    then show ?thesis by blast
  qed
qed

lemma chan_reaches_return:
  "chan_inv s \<Longrightarrow> fit s \<Longrightarrow> \<exists>sched s'. run sched s = Some s' \<and> caller s' = Returned"
proof (induction "work s" arbitrary: s rule: less_induct)
  case less
  show ?case
  proof (cases "caller s = Returned")
    case True
    then have "run [] s = Some s \<and> caller s = Returned" by simp
    then show ?thesis by blast
  next
    case False
    from chan_progress [OF less.prems False] obtain c s1 where c: "step c s = Some s1" by auto
    from less.hyps [OF step_work [OF c] chan_inv_step [OF c less.prems(1)]
        fit_step [OF c less.prems]]
    obtain sched s' where "run sched s1 = Some s'" "caller s' = Returned" by blast
    with c have "run (c # sched) s = Some s' \<and> caller s' = Returned" by simp
    then show ?thesis by blast
  qed
qed

lemma reaches_maximal: "\<exists>sched s'. run sched s = Some s' \<and> (\<forall>c. step c s' = None)"
proof (induction "work s" arbitrary: s rule: less_induct)
  case less
  show ?case
  proof (cases "\<forall>c. step c s = None")
    case True
    then have "run [] s = Some s \<and> (\<forall>c. step c s = None)" by simp
    then show ?thesis by blast
  next
    case False
    then obtain c s1 where c: "step c s = Some s1" by auto
    from less.hyps [OF step_work [OF c]]
    obtain sched s' where "run sched s1 = Some s'" "\<forall>c. step c s' = None" by blast
    with c have "run (c # sched) s = Some s' \<and> (\<forall>c. step c s' = None)" by simp
    then show ?thesis by blast
  qed
qed

lemma overfull_never_returns:
  assumes "chan_inv s" "overfull s" "run sched s = Some s'"
  shows "caller s' \<noteq> Returned"
  using overfull_run [OF assms(3,1,2)] by (simp add: overfull_def)

lemma overfull_gets_stuck:
  assumes "chan_inv s" "overfull s"
  shows "\<exists>sched s'. run sched s = Some s' \<and> stuck s'"
proof -
  from reaches_maximal [of s] obtain sched s' where r: "run sched s = Some s'"
    and m: "\<forall>c. step c s' = None" by blast
  from overfull_never_returns [OF assms r] m have "stuck s'" by (simp add: stuck_iff)
  with r show ?thesis by blast
qed

lemma chan_returned_final:
  "chan_inv s \<Longrightarrow> caller s = Returned \<Longrightarrow>
   tasks s = [] \<and> resCh s = [] \<and> errCh s = [] \<and> \<not> panicked s \<and> closer s = Finished"
  by (cases "closer s") (auto simp: chan_inv_def)

lemma chan_returned_conserved:
  assumes "chan_inv s" "run sched s = Some s'" "caller s' = Returned"
  shows "mset (allRecs s') = all_recs s" "mset (errors s') = all_errs s"
proof -
  from chan_inv_run [OF assms(2,1)] have inv: "chan_inv s'" .
  note f = chan_returned_final [OF inv assms(3)]
  from run_conserves [OF assms(2)] f
  show "mset (allRecs s') = all_recs s" "mset (errors s') = all_errs s"
    by (simp_all add: all_recs_def all_errs_def)
qed


subsection \<open>the wait-group collector\<close>

definition wait_inv :: "'r collector \<Rightarrow> bool" where
  "wait_inv s =
     (\<not> panicked s \<and> wg s = length (tasks s) \<and> list_all (list_all instr_local) (tasks s) \<and>
      closer s = Finished \<and> resCh s = [] \<and> errCh s = [] \<and> errors s = [] \<and>
      (caller s = WgWait \<or> caller s = Returned \<and> tasks s = []))"

lemma exec_local:
  "instr_local ins \<Longrightarrow>
   \<exists>s'. exec ins s = Some s' \<and> panicked s' = panicked s \<and> resCh s' = resCh s \<and>
     errCh s' = errCh s \<and> errors s' = errors s \<and> spawned ins = []"
  by (cases ins) (simp_all add: spawned_def)

lemma wait_inv_task_step:
  assumes "task_step i s = Some s'" "wait_inv s"
  shows "wait_inv s'"
  using assms(1)
proof (cases rule: task_step_cases)
  case (fin before after)
  with assms(2) show ?thesis by (auto simp: wait_inv_def)
next
  case (underflow before after)
  with assms(2) show ?thesis by (simp add: wait_inv_def)
next
  case (op before ins rest after s'')
  with assms(2) have l: "instr_local ins" by (simp add: wait_inv_def)
  from exec_local [OF l, of s] op(3) exec_frame [OF op(3)] op(1,4) assms(2)
  show ?thesis by (auto simp: wait_inv_def)
qed

lemma wait_inv_step: 
  assumes "step c s = Some s'" "wait_inv s"
  shows "wait_inv s'"
proof (cases c)
  case (Task i)
  with assms show ?thesis by (auto simp: step_def split: if_splits dest: wait_inv_task_step)
next
  case Closer
  with assms show ?thesis by (simp add: step_def closer_step_def wait_inv_def)
next
  case Caller
  with assms show ?thesis
    by (cases "caller s") (auto simp: step_def caller_step_def wait_inv_def split: if_splits)
qed

lemma wait_inv_run: "run sched s = Some s' \<Longrightarrow> wait_inv s \<Longrightarrow> wait_inv s'"
  by (induction sched arbitrary: s) (auto split: option.splits dest: wait_inv_step)

lemma wait_progress:
  assumes "wait_inv s" "caller s \<noteq> Returned"
  shows "\<exists>c. step c s \<noteq> None"
proof (cases "tasks s")
  case Nil
  with assms have "step Caller s \<noteq> None"
    by (auto simp: wait_inv_def step_def caller_step_def)
  then show ?thesis by blast
next
  case pool: (Cons t ts)
  have "step (Task 0) s \<noteq> None"
  proof (cases t)
    case Nil
    with pool assms(1) show ?thesis by (simp add: wait_inv_def step_def task_step_def)
  next
    case (Cons ins rest)
    with pool assms(1) have "instr_local ins" by (simp add: wait_inv_def)
    from exec_local [OF this, of s] pool Cons assms(1) show ?thesis
      by (auto simp: wait_inv_def step_def task_step_def)
  qed
  then show ?thesis by blast
qed

lemma wait_reaches_return:
  "wait_inv s \<Longrightarrow> \<exists>sched s'. run sched s = Some s' \<and> caller s' = Returned"
proof (induction "work s" arbitrary: s rule: less_induct)
  case less
  show ?case
  proof (cases "caller s = Returned")
    case True
    then have "run [] s = Some s \<and> caller s = Returned" by simp
    then show ?thesis by blast
  next
    case False
    from wait_progress [OF less.prems False] obtain c s1 where c: "step c s = Some s1" by auto
    from less.hyps [OF step_work [OF c] wait_inv_step [OF c less.prems]]
    obtain sched s' where "run sched s1 = Some s'" "caller s' = Returned" by blast
    with c have "run (c # sched) s = Some s' \<and> caller s' = Returned" by simp
    then show ?thesis by blast
  qed
qed

lemma wait_returned_conserved:
  assumes "wait_inv s" "run sched s = Some s'" "caller s' = Returned"
  shows "mset (allRecs s') = all_recs s" "mset (logged s') = all_logs s" "errors s' = []"
proof -
  from wait_inv_run [OF assms(2,1)] have inv: "wait_inv s'" .
  with assms(3) have f: "tasks s' = []" "resCh s' = []" "\<not> panicked s'" "errors s' = []"
    by (auto simp: wait_inv_def)
  from run_conserves [OF assms(2)] f
  show "mset (allRecs s') = all_recs s" "mset (logged s') = all_logs s" "errors s' = []"
    by (simp_all add: all_recs_def all_logs_def)
qed

subsection \<open>the initial states\<close>

lemma start_chan_inv: "list_all prog_safe ps \<Longrightarrow> chan_inv (start rc ec AtWait RangeResults ps)"
  by (simp add: chan_inv_def start_def)

lemma start_fit: "size (pool_errs ps) \<le> ec \<Longrightarrow> fit (start rc ec cl ca ps)"
  by (simp add: fit_def start_def)

lemma start_overfull: "ec < size (pool_errs ps) \<Longrightarrow> overfull (start rc ec AtWait RangeResults ps)"
  by (simp add: overfull_def start_def)

lemma start_wait_inv:
  "list_all (list_all instr_local) ps \<Longrightarrow> wait_inv (start rc ec Finished WgWait ps)"
  by (simp add: wait_inv_def start_def)

lemma start_totals [simp]:
  "all_recs (start rc ec cl ca ps) = pool_recs ps"
  "all_errs (start rc ec cl ca ps) = pool_errs ps"
  "all_logs (start rc ec cl ca ps) = pool_logs ps"
  by (simp_all add: all_recs_def all_errs_def all_logs_def start_def)

section \<open>The goroutines of the four collectors\<close>

subsection \<open>pools of region goroutines\<close>

lemma pool_recs_map: "x \<in># pool_recs (map f rs) \<longleftrightarrow> (\<exists>r \<in> set rs. x \<in># prog_recs (f r))"
  by (induction rs) auto

lemma pool_errs_map: "x \<in># pool_errs (map f rs) \<longleftrightarrow> (\<exists>r \<in> set rs. x \<in># prog_errs (f r))"
  by (induction rs) auto

lemma pool_logs_map: "x \<in># pool_logs (map f rs) \<longleftrightarrow> (\<exists>r \<in> set rs. x \<in># prog_logs (f r))"
  by (induction rs) auto

lemma pool_errs_bound:
  "\<forall>r \<in> set rs. size (prog_errs (f r)) \<le> 1 \<Longrightarrow> size (pool_errs (map f rs)) \<le> length rs"
  by (induction rs) auto

lemma pool_errs_empty:
  "\<forall>r \<in> set rs. prog_errs (f r) = {#} \<Longrightarrow> pool_errs (map f rs) = {#}"
  by (induction rs) auto

lemma pool_errs_positive:
  "r \<in> set rs \<Longrightarrow> prog_errs (f r) \<noteq> {#} \<Longrightarrow> 0 < size (pool_errs (map f rs))"
  by (induction rs) (auto simp: nonempty_has_size [symmetric])

subsection \<open>instances\<close>

lemma fetchInstancesInRegion_public:
  "fetchInstancesInRegion cfg r = Inr instances \<Longrightarrow> instance \<in> set instances \<Longrightarrow>
   \<exists>ip. PublicIpAddress instance = Some ip \<and> ip \<noteq> []"
  by (auto simp: fetchInstancesInRegion_def split: sum.splits option.splits)

lemma instancesTask_local: "list_all instr_local (instancesTask cfg r)"
proof (cases "fetchInstancesInRegion cfg r")
  case (Inl e)
  then show ?thesis by (simp add: instancesTask_def)
next
  case (Inr instances)
  have "instr_local (instanceInfo r i)" if "i \<in> set instances" for i
    using fetchInstancesInRegion_public [OF Inr that] by (auto simp: instanceInfo_def)
  with Inr show ?thesis by (simp add: instancesTask_def list_all_iff)
qed

lemma instanceInfo_rec:
  "x \<in># instr_recs (instanceInfo r instance) \<Longrightarrow>
   EC2InstanceInfo.Region x = r \<and> EC2InstanceInfo.Cost x = 3.65"
  by (auto simp: instanceInfo_def split: option.splits)

lemma prog_recs_map: "x \<in># prog_recs (map f xs) \<longleftrightarrow> (\<exists>y \<in> set xs. x \<in># instr_recs (f y))"
  by (induction xs) auto

lemma instancesTask_rec:
  "x \<in># prog_recs (instancesTask cfg r) \<Longrightarrow>
   EC2InstanceInfo.Region x = r \<and> EC2InstanceInfo.Cost x = 3.65 \<and>
   (\<exists>instances. fetchInstancesInRegion cfg r = Inr instances)"
  by (auto simp: instancesTask_def prog_recs_map split: sum.splits dest: instanceInfo_rec)

lemma fetchAllInstances_inv: "wait_inv (fetchAllInstances cfg regions)"
  unfolding fetchAllInstances_def
  by (rule start_wait_inv) (induction regions; simp add: instancesTask_local)

subsection \<open>Elastic IPs\<close>

lemma eipLoop_safe: "prog_safe (eipLoop cfg r eips)"
  by (induction eips) (auto split: sum.splits)

lemma eipLoop_errs: "size (prog_errs (eipLoop cfg r eips)) \<le> 1"
  by (induction eips) (auto split: sum.splits)

lemma eipLoop_rec:
  "x \<in># prog_recs (eipLoop cfg r eips) \<Longrightarrow>
   EIPInfo.Region x = r \<and>
   EIPInfo.Cost x = (if AssociationTarget x = [] then 7.3 else 3.65)"
  by (induction eips) (auto simp: eipInfo_def split: sum.splits if_splits)

lemma eipsTask_safe: "prog_safe (eipsTask cfg r)"
  by (simp add: eipsTask_def eipLoop_safe split: sum.splits)

lemma eipsTask_errs: "size (prog_errs (eipsTask cfg r)) \<le> 1"
  using eipLoop_errs [of cfg r] by (auto simp: eipsTask_def split: sum.splits)

lemma eipsTask_rec:
  "x \<in># prog_recs (eipsTask cfg r) \<Longrightarrow>
   EIPInfo.Region x = r \<and> (\<exists>eips. fetchEIPsInRegion cfg r = Inr eips) \<and>
   EIPInfo.Cost x = (if AssociationTarget x = [] then 7.3 else 3.65)"
  by (auto simp: eipsTask_def split: sum.splits dest: eipLoop_rec)

lemma fetchAllEIPs_inv: "chan_inv (fetchAllEIPs cfg regions) \<and> fit (fetchAllEIPs cfg regions)"
  unfolding fetchAllEIPs_def
  by (intro conjI start_chan_inv start_fit)
    (simp_all add: list_all_iff eipsTask_safe pool_errs_bound [OF ballI, OF eipsTask_errs])

subsection \<open>network interfaces\<close>

lemma fetchENIsInRegion_public:
  assumes "fetchENIsInRegion cfg r = Inr enis" "eni \<in> set enis"
  shows "\<exists>a ip. Association eni = Some a \<and> NetworkInterfaceAssociation.PublicIp a = Some ip \<and> ip \<noteq> []"
proof -
  from assms have h: "case Association eni of None \<Rightarrow> False
    | Some a \<Rightarrow> (case NetworkInterfaceAssociation.PublicIp a of None \<Rightarrow> False | Some ip \<Rightarrow> ip \<noteq> [])"
    by (auto simp: fetchENIsInRegion_def split: sum.splits)
  show ?thesis
  proof (cases "Association eni")
    case None
    with h show ?thesis by simp
  next
    case (Some a)
    with h show ?thesis by (cases "NetworkInterfaceAssociation.PublicIp a") simp_all
  qed
qed

lemma prog_safe_map: "prog_safe (map f xs) \<longleftrightarrow> (\<forall>y \<in> set xs. instr_safe (f y))"
  by (induction xs) auto

lemma prog_errs_map_none: "(\<And>y. y \<in> set xs \<Longrightarrow> instr_errs (f y) = {#}) \<Longrightarrow> prog_errs (map f xs) = {#}"
  by (induction xs) auto

lemma eniInfo_errs: "instr_errs (eniInfo r eni) = {#}"
  by (simp add: eniInfo_def split: option.splits)

lemma eniInfo_rec:
  "x \<in># instr_recs (eniInfo r eni) \<Longrightarrow> ENIInfo.Region x = r \<and> ENIInfo.Cost x = 3.65"
  by (auto simp: eniInfo_def split: option.splits)

lemma enisTask_safe: "prog_safe (enisTask cfg r)"
proof (cases "fetchENIsInRegion cfg r")
  case (Inl e)
  then show ?thesis by (simp add: enisTask_def)
next
  case (Inr enis)
  have "instr_safe (eniInfo r eni)" if "eni \<in> set enis" for eni
    using fetchENIsInRegion_public [OF Inr that] by (auto simp: eniInfo_def)
  with Inr show ?thesis by (simp add: enisTask_def prog_safe_map)
qed

lemma enisTask_errs: "size (prog_errs (enisTask cfg r)) \<le> 1"
  by (simp add: enisTask_def prog_errs_map_none eniInfo_errs split: sum.splits)

lemma enisTask_rec:
  "x \<in># prog_recs (enisTask cfg r) \<Longrightarrow>
   ENIInfo.Region x = r \<and> ENIInfo.Cost x = 3.65 \<and> (\<exists>enis. fetchENIsInRegion cfg r = Inr enis)"
  by (auto simp: enisTask_def prog_recs_map split: sum.splits dest: eniInfo_rec)

lemma fetchAllENIs_inv: "chan_inv (fetchAllENIs cfg regions) \<and> fit (fetchAllENIs cfg regions)"
  unfolding fetchAllENIs_def
  by (intro conjI start_chan_inv start_fit)
    (simp_all add: list_all_iff enisTask_safe pool_errs_bound [OF ballI, OF enisTask_errs])

subsection \<open>load balancers\<close>

definition lbs_listed :: "Config \<Rightarrow> region \<Rightarrow> bool" where
  "lbs_listed cfg r =
     (\<not> isl (fetchLoadBalancers cfg r) \<and> \<not> isl (fetchClassicLoadBalancers cfg r))"

lemma prog_safe_append [simp]: "prog_safe (p @ q) \<longleftrightarrow> prog_safe p \<and> prog_safe q"
  by (induction p) auto

lemma lbsTask_safe: "prog_safe (lbsTask cfg r)"
  by (auto simp: lbsTask_def prog_safe_map split: sum.splits)

lemma prog_errs_append [simp]: "prog_errs (p @ q) = prog_errs p + prog_errs q"
  by (induction p) auto

lemma prog_recs_append [simp]: "prog_recs (p @ q) = prog_recs p + prog_recs q"
  by (induction p) auto

lemma lbsTask_errs_listed: "lbs_listed cfg r \<Longrightarrow> prog_errs (lbsTask cfg r) = {#}"
  by (auto simp: lbs_listed_def lbsTask_def prog_errs_map_none split: sum.splits)

lemma lbsTask_errs_failed: "\<not> lbs_listed cfg r \<Longrightarrow> size (prog_errs (lbsTask cfg r)) = 1"
  by (auto simp: lbs_listed_def lbsTask_def split: sum.splits)

definition lb_priced :: "Config \<Rightarrow> region \<Rightarrow> LoadBalancerInfo \<Rightarrow> bool" where
  "lb_priced cfg r x =
     (LoadBalancerInfo.Region x = r \<and>
      IPCount x = int (length (countIPsFromDNS cfg (LoadBalancerInfo.DNSName x))) \<and>
      PublicIPs x = countIPsFromDNS cfg (LoadBalancerInfo.DNSName x) \<and>
      LoadBalancerInfo.Cost x = 3.65 * real (length (countIPsFromDNS cfg (LoadBalancerInfo.DNSName x))))"

lemma lbInfo_priced: "lb_priced cfg r (lbInfo cfg r lb)"
  by (simp add: lb_priced_def lbInfo_def Let_def)

lemma classicLbInfo_priced: "lb_priced cfg r (classicLbInfo cfg r lb)"
  by (simp add: lb_priced_def classicLbInfo_def Let_def)

lemma lbsTask_rec:
  assumes "x \<in># prog_recs (lbsTask cfg r)"
  shows "lb_priced cfg r x \<and> lbs_listed cfg r"
proof (cases "fetchLoadBalancers cfg r")
  case (Inl e)
  with assms show ?thesis by (simp add: lbsTask_def)
next
  case lbs: (Inr lbs)
  show ?thesis
  proof (cases "fetchClassicLoadBalancers cfg r")
    case (Inl e)
    with lbs assms show ?thesis by (simp add: lbsTask_def)
  next
    case (Inr classicLbs)
    with lbs assms have "(\<exists>lb. x = lbInfo cfg r lb) \<or> (\<exists>lb. x = classicLbInfo cfg r lb)"
      by (auto simp: lbsTask_def prog_recs_map)
    moreover from lbs Inr have "lbs_listed cfg r" by (simp add: lbs_listed_def)
    ultimately show ?thesis by (auto simp: lbInfo_priced classicLbInfo_priced)
  qed
qed

lemma fetchAllLoadBalancers_inv: "chan_inv (fetchAllLoadBalancers cfg regions)"
  unfolding fetchAllLoadBalancers_def
  by (rule start_chan_inv) (simp add: list_all_iff lbsTask_safe)

lemma fetchAllLoadBalancers_fit:
  "list_all (lbs_listed cfg) regions \<Longrightarrow> fit (fetchAllLoadBalancers cfg regions)"
  unfolding fetchAllLoadBalancers_def
  by (rule start_fit) (simp add: pool_errs_empty lbsTask_errs_listed list_all_iff)

lemma fetchAllLoadBalancers_overfull:
  assumes "r \<in> set regions" "\<not> lbs_listed cfg r"
  shows "overfull (fetchAllLoadBalancers cfg regions)"
  unfolding fetchAllLoadBalancers_def
proof (rule start_overfull)
  from lbsTask_errs_failed [OF assms(2)] have "prog_errs (lbsTask cfg r) \<noteq> {#}" by auto
  from pool_errs_positive [OF assms(1), of "lbsTask cfg", OF this]
  show "0 < size (pool_errs (map (lbsTask cfg) regions))" .
qed

section \<open>What a call of a collector does\<close>

text \<open>
  A call always returns when some schedule takes it to its \<^verbatim>\<open>return\<close> and every
  schedule is bounded by the work of the initial state and never reaches a panic or a
  state in which the call hangs.
\<close>

definition always_returns :: "'r collector \<Rightarrow> bool" where
  "always_returns init =
     ((\<exists>sched s. run sched init = Some s \<and> caller s = Returned) \<and>
      (\<forall>sched s. run sched init = Some s \<longrightarrow>
         length sched \<le> work init \<and> \<not> panicked s \<and> \<not> stuck s))"

lemma chan_always_returns:
  assumes "chan_inv init" "fit init"
  shows "always_returns init"
  unfolding always_returns_def
proof (intro conjI allI impI)
  from chan_reaches_return [OF assms] show "\<exists>sched s. run sched init = Some s \<and> caller s = Returned" .
next
  fix sched s
  assume r: "run sched init = Some s"
  from run_work [OF r] show "length sched \<le> work init" by simp
  from fit_run [OF r assms] have i: "fit s" "chan_inv s" by simp_all
  then show "\<not> panicked s" by (simp add: chan_inv_def)
  from chan_progress [OF i(2,1)] show "\<not> stuck s" by (auto simp: stuck_iff)
qed

lemma wait_always_returns:
  assumes "wait_inv init"
  shows "always_returns init"
  unfolding always_returns_def
proof (intro conjI allI impI)
  from wait_reaches_return [OF assms] show "\<exists>sched s. run sched init = Some s \<and> caller s = Returned" .
next
  fix sched s
  assume r: "run sched init = Some s"
  from run_work [OF r] show "length sched \<le> work init" by simp
  from wait_inv_run [OF r assms] have i: "wait_inv s" .
  then show "\<not> panicked s" by (simp add: wait_inv_def)
  from wait_progress [OF i] show "\<not> stuck s" by (auto simp: stuck_iff)
qed

lemma chan_call_result:
  assumes "chan_inv init" "returns init joined (recs, e)"
  shows "mset recs = all_recs init"
    and "\<exists>msgs. mset msgs = all_errs init \<and>
           e = (if msgs = [] then None else Some (Errorf0 (Join msgs ''; '')))"
proof -
  from assms(2) obtain sched s where r: "run sched init = Some s" "caller s = Returned"
    and j: "joined s = (recs, e)" by (auto simp: returns_def)
  note c = chan_returned_conserved [OF assms(1) r]
  from j have recs: "recs = allRecs s"
    and e: "e = (if errors s = [] then None else Some (Errorf0 (Join (errors s) ''; '')))"
    by (auto simp: joined_def split: if_splits)
  from recs c(1) show "mset recs = all_recs init" by simp
  from e c(2) show "\<exists>msgs. mset msgs = all_errs init \<and>
           e = (if msgs = [] then None else Some (Errorf0 (Join msgs ''; '')))" by blast
qed


lemma overfull_call:
  assumes "chan_inv init" "overfull init"
  shows "\<not> returns init ret res" and "\<exists>sched s. run sched init = Some s \<and> stuck s"
    and "run sched init = Some s \<Longrightarrow> \<not> resClosed s \<and> \<not> errClosed s \<and> closer s = AtWait"
proof -
  show "\<not> returns init ret res"
    using overfull_never_returns [OF assms] by (auto simp: returns_def)
  show "\<exists>sched s. run sched init = Some s \<and> stuck s"
    by (rule overfull_gets_stuck [OF assms])
  assume "run sched init = Some s"
  from overfull_run [OF this assms] show "\<not> resClosed s \<and> \<not> errClosed s \<and> closer s = AtWait"
    by (auto simp: overfull_def chan_inv_def)
qed

lemma chan_run_recs:
  assumes "chan_inv init" "run sched init = Some s"
  shows "set (allRecs s) \<union> set (resCh s) \<subseteq> set_mset (all_recs init)"
proof -
  from chan_inv_run [OF assms(2,1)] have "\<not> panicked s" by (simp add: chan_inv_def)
  from run_conserves [OF assms(2) this] have "all_recs s = all_recs init" by simp
  moreover have "set (allRecs s) \<union> set (resCh s) \<subseteq> set_mset (all_recs s)"
    by (auto simp: all_recs_def)
  ultimately show ?thesis by simp
qed

lemma wait_run_recs:
  assumes "wait_inv init" "run sched init = Some s"
  shows "set (allRecs s) \<union> set (resCh s) \<subseteq> set_mset (all_recs init)"
proof -
  from wait_inv_run [OF assms(2,1)] have "\<not> panicked s" by (simp add: wait_inv_def)
  from run_conserves [OF assms(2) this] have "all_recs s = all_recs init" by simp
  moreover have "set (allRecs s) \<union> set (resCh s) \<subseteq> set_mset (all_recs s)"
    by (auto simp: all_recs_def)
  ultimately show ?thesis by simp
qed

lemma chan_inv_closed: "chan_inv s \<Longrightarrow> resClosed s \<or> errClosed s \<Longrightarrow> tasks s = [] \<and> wg s = 0"
  by (cases "closer s") (auto simp: chan_inv_def)

lemma fetchAllInstances_recs:
  assumes "run sched (fetchAllInstances cfg regions) = Some s" "x \<in> set (allRecs s) \<union> set (resCh s)"
  shows "\<exists>r \<in> set regions. x \<in># prog_recs (instancesTask cfg r)"
  using wait_run_recs [OF fetchAllInstances_inv assms(1)] assms(2)
  by (auto simp: fetchAllInstances_def pool_recs_map)

lemma fetchAllEIPs_recs:
  assumes "run sched (fetchAllEIPs cfg regions) = Some s" "x \<in> set (allRecs s) \<union> set (resCh s)"
  shows "\<exists>r \<in> set regions. x \<in># prog_recs (eipsTask cfg r)"
  using chan_run_recs [OF conjunct1 [OF fetchAllEIPs_inv] assms(1)] assms(2)
  by (auto simp: fetchAllEIPs_def pool_recs_map)

lemma fetchAllENIs_recs:
  assumes "run sched (fetchAllENIs cfg regions) = Some s" "x \<in> set (allRecs s) \<union> set (resCh s)"
  shows "\<exists>r \<in> set regions. x \<in># prog_recs (enisTask cfg r)"
  using chan_run_recs [OF conjunct1 [OF fetchAllENIs_inv] assms(1)] assms(2)
  by (auto simp: fetchAllENIs_def pool_recs_map)

lemma fetchAllLoadBalancers_recs:
  assumes "run sched (fetchAllLoadBalancers cfg regions) = Some s" "x \<in> set (allRecs s) \<union> set (resCh s)"
  shows "\<exists>r \<in> set regions. x \<in># prog_recs (lbsTask cfg r)"
  using chan_run_recs [OF fetchAllLoadBalancers_inv assms(1)] assms(2)
  by (auto simp: fetchAllLoadBalancers_def pool_recs_map)

text \<open>
  \<open>closes_after_producers init\<close>: the call always returns, and in every state it can
  reach nothing has panicked (no send on a closed channel, no second close), a channel
  is closed only when every goroutine of the pool, started ones included, has ended and
  the wait group is at zero, the results channel is closed exactly when the closing
  goroutine has passed its wait and the errors channel exactly when that goroutine has
  finished, and at the \<^verbatim>\<open>return\<close> both channels are closed and drained.
\<close>

definition closes_after_producers :: "'r collector \<Rightarrow> bool" where
  "closes_after_producers init =
     (always_returns init \<and>
      (\<forall>sched s. run sched init = Some s \<longrightarrow>
         \<not> panicked s \<and>
         (resClosed s \<or> errClosed s \<longrightarrow> tasks s = [] \<and> wg s = 0) \<and>
         (resClosed s \<longleftrightarrow> closer s \<noteq> AtWait) \<and>
         (errClosed s \<longleftrightarrow> closer s = Finished) \<and>
         (caller s = Returned \<longrightarrow>
            resClosed s \<and> errClosed s \<and> resCh s = [] \<and> errCh s = [])))"

lemma chan_closes_after_producers:
  assumes "chan_inv init" "fit init"
  shows "closes_after_producers init"
  unfolding closes_after_producers_def
proof (intro conjI allI impI)
  show "always_returns init" by (rule chan_always_returns [OF assms])
  fix sched s
  assume "run sched init = Some s"
  from chan_inv_run [OF this assms(1)] have inv: "chan_inv s" .
  then show "\<not> panicked s" by (simp add: chan_inv_def)
  from inv show "resClosed s \<longleftrightarrow> closer s \<noteq> AtWait" "errClosed s \<longleftrightarrow> closer s = Finished"
    by (cases "closer s"; simp add: chan_inv_def)+
  show "tasks s = []" "wg s = 0" if "resClosed s \<or> errClosed s"
    using chan_inv_closed [OF inv that] by simp_all
  show "resClosed s" "errClosed s" "resCh s = []" "errCh s = []" if "caller s = Returned"
    using inv that by (simp_all add: chan_inv_def)
qed
section \<open>What a returning call hands back\<close>

text \<open>
  \<open>gathers init recs msgs\<close>: the call always returns, and whatever schedule it runs
  under it returns the records \<open>recs\<close> in some order together with \<^verbatim>\<open>nil\<close> when
  \<open>msgs\<close> is empty and otherwise the error made from the \<^verbatim>\<open>"; "\<close>-join of the
  messages \<open>msgs\<close> in some order.

  \<open>eips_described cfg r\<close>: the address listing of region \<open>r\<close> succeeds and so does
  the association lookup of every address that is not attached to an instance.
\<close>

definition gathers :: "'r collector \<Rightarrow> 'r multiset \<Rightarrow> string multiset \<Rightarrow> bool" where
  "gathers init recs msgs =
     (always_returns init \<and>
      (\<forall>rs e. returns init joined (rs, e) \<longrightarrow>
         mset rs = recs \<and>
         (\<exists>ms. mset ms = msgs \<and>
            e = (if ms = [] then None else Some (Errorf0 (Join ms ''; ''))))))"

definition eips_described :: "Config \<Rightarrow> region \<Rightarrow> bool" where
  "eips_described cfg r =
     (case fetchEIPsInRegion cfg r of
        Inl e \<Rightarrow> False
      | Inr eips \<Rightarrow>
          list_all (\<lambda>eip. Address.InstanceId eip = None \<longrightarrow>
                      \<not> isl (describeEIPByAssociationID cfg (ToString (AssociationId eip)) r))
            eips)"

lemma chan_gathers:
  assumes "chan_inv init" "fit init"
  shows "gathers init (all_recs init) (all_errs init)"
  unfolding gathers_def
  using chan_always_returns [OF assms] chan_call_result [OF assms(1)] by blast

lemma fetchAllEIPs_gathers:
  "gathers (fetchAllEIPs cfg regions) (pool_recs (map (eipsTask cfg) regions))
     (pool_errs (map (eipsTask cfg) regions))"
  using chan_gathers [OF conjunct1 [OF fetchAllEIPs_inv] conjunct2 [OF fetchAllEIPs_inv], of cfg regions]
  by (simp add: fetchAllEIPs_def)

lemma fetchAllENIs_gathers:
  "gathers (fetchAllENIs cfg regions) (pool_recs (map (enisTask cfg) regions))
     (pool_errs (map (enisTask cfg) regions))"
  using chan_gathers [OF conjunct1 [OF fetchAllENIs_inv] conjunct2 [OF fetchAllENIs_inv], of cfg regions]
  by (simp add: fetchAllENIs_def)

lemma fetchAllLoadBalancers_gathers:
  assumes "list_all (lbs_listed cfg) regions"
  shows "gathers (fetchAllLoadBalancers cfg regions) (pool_recs (map (lbsTask cfg) regions)) {#}"
proof -
  from assms have "pool_errs (map (lbsTask cfg) regions) = {#}"
    by (simp add: pool_errs_empty lbsTask_errs_listed list_all_iff)
  with chan_gathers [OF fetchAllLoadBalancers_inv fetchAllLoadBalancers_fit [OF assms]]
  show ?thesis by (simp add: fetchAllLoadBalancers_def)
qed

lemma eipsTask_fetch_failed:
  "fetchEIPsInRegion cfg r = Inl m \<Longrightarrow>
   prog_errs (eipsTask cfg r) = {#''failed to fetch EIPs in region '' @ r @ '': '' @ m#} \<and>
   prog_recs (eipsTask cfg r) = {#}"
  by (simp add: eipsTask_def)

lemma enisTask_fetch_failed:
  "fetchENIsInRegion cfg r = Inl m \<Longrightarrow>
   prog_errs (enisTask cfg r) = {#''Failed to fetch ENIs in region '' @ r @ '': '' @ m#} \<and>
   prog_recs (enisTask cfg r) = {#}"
  by (simp add: enisTask_def)

lemma enisTask_fetched: "\<not> isl (fetchENIsInRegion cfg r) \<Longrightarrow> prog_errs (enisTask cfg r) = {#}"
  by (cases "fetchENIsInRegion cfg r")
    (simp_all add: enisTask_def prog_errs_map_none eniInfo_errs)

lemma eipLoop_errs_iff:
  "prog_errs (eipLoop cfg r eips) = {#} \<longleftrightarrow>
   list_all (\<lambda>eip. Address.InstanceId eip = None \<longrightarrow>
               \<not> isl (describeEIPByAssociationID cfg (ToString (AssociationId eip)) r)) eips"
proof (induction eips)
  case Nil
  show ?case by simp
next
  case (Cons eip eips)
  show ?case
  proof (cases "Address.InstanceId eip")
    case (Some i)
    with Cons show ?thesis by simp
  next
    case None
    with Cons show ?thesis
      by (cases "describeEIPByAssociationID cfg (ToString (AssociationId eip)) r") simp_all
  qed
qed

lemma eipsTask_errs_iff: "prog_errs (eipsTask cfg r) = {#} \<longleftrightarrow> eips_described cfg r"
  by (cases "fetchEIPsInRegion cfg r") (simp_all add: eipsTask_def eips_described_def eipLoop_errs_iff)

lemma pool_errs_member: "r \<in> set rs \<Longrightarrow> m \<in># prog_errs (f r) \<Longrightarrow> m \<in># pool_errs (map f rs)"
  by (auto simp: pool_errs_map)


lemma instances_return_nil:
  "returns (fetchAllInstances cfg regions) instancesReturn res \<Longrightarrow>
   snd res = None \<and> mset (fst res) = pool_recs (map (instancesTask cfg) regions)"
proof -
  assume "returns (fetchAllInstances cfg regions) instancesReturn res"
  then obtain sched s where r: "run sched (fetchAllInstances cfg regions) = Some s"
    "caller s = Returned" and res: "instancesReturn s = res"
    by (auto simp: returns_def)
  from wait_returned_conserved(1) [OF fetchAllInstances_inv r] res
  show ?thesis by (auto simp: instancesReturn_def fetchAllInstances_def)
qed

lemma pool_errs_empty_iff:
  "pool_errs (map f rs) = {#} \<longleftrightarrow> (\<forall>r \<in> set rs. prog_errs (f r) = {#})"
  by (induction rs) auto

lemma gathers_nil_iff:
  assumes "gathers init recs msgs" "returns init joined (rs, e)"
  shows "e = None \<longleftrightarrow> msgs = {#}"
proof -
  from assms obtain ms where "mset ms = msgs"
    "e = (if ms = [] then None else Some (Errorf0 (Join ms ''; '')))"
    unfolding gathers_def by blast
  then show ?thesis by auto
qed

lemma gathers_returns: "gathers init recs msgs \<Longrightarrow> \<exists>rs e. returns init joined (rs, e)"
  unfolding gathers_def always_returns_def returns_def
  by (metis surj_pair)












section \<open>Properties of the collectors\<close>

text \<open>
  Claim C8. For all four collectors, in every state a call can reach, every record
  gathered by the caller or waiting in the results channel carries a region of the region
  list the collector was called with.
\<close>

theorem emitted_records_are_from_queried_regions:
  "(\<forall>sched s x. run sched (fetchAllInstances cfg regions) = Some s \<and>
      x \<in> set (allRecs s) \<union> set (resCh s) \<longrightarrow> EC2InstanceInfo.Region x \<in> set regions) \<and>
   (\<forall>sched s x. run sched (fetchAllEIPs cfg regions) = Some s \<and>
      x \<in> set (allRecs s) \<union> set (resCh s) \<longrightarrow> EIPInfo.Region x \<in> set regions) \<and>
   (\<forall>sched s x. run sched (fetchAllLoadBalancers cfg regions) = Some s \<and>
      x \<in> set (allRecs s) \<union> set (resCh s) \<longrightarrow> LoadBalancerInfo.Region x \<in> set regions) \<and>
   (\<forall>sched s x. run sched (fetchAllENIs cfg regions) = Some s \<and>
      x \<in> set (allRecs s) \<union> set (resCh s) \<longrightarrow> ENIInfo.Region x \<in> set regions)"
proof (intro conjI allI impI; elim conjE)
  fix sched s x
  assume "run sched (fetchAllInstances cfg regions) = Some s" "x \<in> set (allRecs s) \<union> set (resCh s)"
  from fetchAllInstances_recs [OF this] show "EC2InstanceInfo.Region x \<in> set regions"
    by (auto dest: instancesTask_rec)
next
  fix sched s x
  assume "run sched (fetchAllEIPs cfg regions) = Some s" "x \<in> set (allRecs s) \<union> set (resCh s)"
  from fetchAllEIPs_recs [OF this] show "EIPInfo.Region x \<in> set regions"
    by (auto dest: eipsTask_rec)
next
  fix sched s x
  assume "run sched (fetchAllLoadBalancers cfg regions) = Some s" "x \<in> set (allRecs s) \<union> set (resCh s)"
  from fetchAllLoadBalancers_recs [OF this] show "LoadBalancerInfo.Region x \<in> set regions"
    by (auto dest: lbsTask_rec simp: lb_priced_def)
next
  fix sched s x
  assume "run sched (fetchAllENIs cfg regions) = Some s" "x \<in> set (allRecs s) \<union> set (resCh s)"
  from fetchAllENIs_recs [OF this] show "ENIInfo.Region x \<in> set regions"
    by (auto dest: enisTask_rec)
qed

theorem emitted_records_are_from_queried_regions_witness:
  "(\<exists>s. run instancesSchedule (fetchAllInstances sampleConfig bothRegions) = Some s \<and>
      allRecs s \<noteq> [] \<and>
      list_all (\<lambda>x. EC2InstanceInfo.Region x \<in> set bothRegions) (allRecs s)) \<and>
   (\<exists>s. run eipsSchedule (fetchAllEIPs sampleConfig bothRegions) = Some s \<and>
      allRecs s \<noteq> [] \<and>
      list_all (\<lambda>x. EIPInfo.Region x \<in> set bothRegions) (allRecs s)) \<and>
   (\<exists>s. run lbsSchedule (fetchAllLoadBalancers sampleConfig [''us-east-1'']) = Some s \<and>
      allRecs s \<noteq> [] \<and>
      list_all (\<lambda>x. LoadBalancerInfo.Region x \<in> set [''us-east-1'']) (allRecs s)) \<and>
   (\<exists>s. run enisSchedule (fetchAllENIs sampleConfig bothRegions) = Some s \<and>
      allRecs s \<noteq> [] \<and>
      list_all (\<lambda>x. ENIInfo.Region x \<in> set bothRegions) (allRecs s))"
proof (intro conjI)
  have "case run instancesSchedule (fetchAllInstances sampleConfig bothRegions) of
          None \<Rightarrow> False | Some s \<Rightarrow> allRecs s \<noteq> []"
    by code_simp
  then obtain s where s: "run instancesSchedule (fetchAllInstances sampleConfig bothRegions) = Some s"
    "allRecs s \<noteq> []" by (auto split: option.splits)
  with emitted_records_are_from_queried_regions [of sampleConfig bothRegions]
  have "list_all (\<lambda>x. EC2InstanceInfo.Region x \<in> set bothRegions) (allRecs s)"
    unfolding list_all_iff by blast
  with s show "\<exists>s. run instancesSchedule (fetchAllInstances sampleConfig bothRegions) = Some s \<and>
      allRecs s \<noteq> [] \<and> list_all (\<lambda>x. EC2InstanceInfo.Region x \<in> set bothRegions) (allRecs s)"
    by blast
next
  have "case run eipsSchedule (fetchAllEIPs sampleConfig bothRegions) of
          None \<Rightarrow> False | Some s \<Rightarrow> allRecs s \<noteq> []"
    by code_simp
  then obtain s where s: "run eipsSchedule (fetchAllEIPs sampleConfig bothRegions) = Some s"
    "allRecs s \<noteq> []" by (auto split: option.splits)
  with emitted_records_are_from_queried_regions [of sampleConfig bothRegions]
  have "list_all (\<lambda>x. EIPInfo.Region x \<in> set bothRegions) (allRecs s)"
    unfolding list_all_iff by blast
  with s show "\<exists>s. run eipsSchedule (fetchAllEIPs sampleConfig bothRegions) = Some s \<and>
      allRecs s \<noteq> [] \<and> list_all (\<lambda>x. EIPInfo.Region x \<in> set bothRegions) (allRecs s)"
    by blast
next
  have "case run lbsSchedule (fetchAllLoadBalancers sampleConfig [''us-east-1'']) of
          None \<Rightarrow> False | Some s \<Rightarrow> allRecs s \<noteq> []"
    by code_simp
  then obtain s where s: "run lbsSchedule (fetchAllLoadBalancers sampleConfig [''us-east-1'']) = Some s"
    "allRecs s \<noteq> []" by (auto split: option.splits)
  with emitted_records_are_from_queried_regions [of sampleConfig "[''us-east-1'']"]
  have "list_all (\<lambda>x. LoadBalancerInfo.Region x \<in> set [''us-east-1'']) (allRecs s)"
    unfolding list_all_iff by blast
  with s show "\<exists>s. run lbsSchedule (fetchAllLoadBalancers sampleConfig [''us-east-1'']) = Some s \<and>
      allRecs s \<noteq> [] \<and> list_all (\<lambda>x. LoadBalancerInfo.Region x \<in> set [''us-east-1'']) (allRecs s)"
    by blast
next
  have "case run enisSchedule (fetchAllENIs sampleConfig bothRegions) of
          None \<Rightarrow> False | Some s \<Rightarrow> allRecs s \<noteq> []"
    by code_simp
  then obtain s where s: "run enisSchedule (fetchAllENIs sampleConfig bothRegions) = Some s"
    "allRecs s \<noteq> []" by (auto split: option.splits)
  with emitted_records_are_from_queried_regions [of sampleConfig bothRegions]
  have "list_all (\<lambda>x. ENIInfo.Region x \<in> set bothRegions) (allRecs s)"
    unfolding list_all_iff by blast
  with s show "\<exists>s. run enisSchedule (fetchAllENIs sampleConfig bothRegions) = Some s \<and>
      allRecs s \<noteq> [] \<and> list_all (\<lambda>x. ENIInfo.Region x \<in> set bothRegions) (allRecs s)"
    by blast
qed

text \<open>
  The two channels of the load-balancer collector are unbuffered and the caller reads
  the errors channel only after the results channel is closed; the closing goroutine
  waits for the wait group, and a region goroutine that sends an error waits for the
  caller. So whenever a listing fails in some region of the list, no schedule reaches
  the \<^verbatim>\<open>return\<close>, some schedule ends in a state where nothing can move, and neither
  channel is ever closed: the caller stays in the range over the results.
\<close>

lemma failed_listing_blocks_load_balancer_call:
  assumes "r \<in> set regions" "\<not> lbs_listed cfg r"
  shows "(\<forall>res. \<not> returns (fetchAllLoadBalancers cfg regions) joined res) \<and>
         (\<exists>sched s. run sched (fetchAllLoadBalancers cfg regions) = Some s \<and> stuck s) \<and>
         (\<forall>sched s. run sched (fetchAllLoadBalancers cfg regions) = Some s \<longrightarrow>
            \<not> resClosed s \<and> \<not> errClosed s \<and> closer s = AtWait \<and> caller s = RangeResults)"
proof -
  note inv = fetchAllLoadBalancers_inv [of cfg regions]
  note over = fetchAllLoadBalancers_overfull [OF assms]
  have 1: "\<forall>res. \<not> returns (fetchAllLoadBalancers cfg regions) joined res"
    using overfull_call(1) [OF inv over, where ret = joined] by simp
  note 2 = overfull_call(2) [OF inv over]
  have 3: "\<not> resClosed s \<and> \<not> errClosed s \<and> closer s = AtWait \<and> caller s = RangeResults"
    if "run sched (fetchAllLoadBalancers cfg regions) = Some s" for sched s
    using overfull_call(3) [OF inv over that] overfull_run [OF that inv over]
    by (simp add: overfull_def)
  from 1 2 3 show ?thesis by blast
qed

text \<open>
  Claim C4 fails for the load-balancer collector at the sample account with both
  regions: the listing of \<^verbatim>\<open>eu-west-1\<close> fails, the record of the load balancer of
  \<^verbatim>\<open>us-east-1\<close> is received by the caller, and the call never returns it. After the
  four steps shown nothing can move: the goroutine of \<^verbatim>\<open>eu-west-1\<close> waits to send its
  error.
\<close>

theorem load_balancer_records_lost_with_failed_sibling:
  "\<not> (\<exists>res. returns (fetchAllLoadBalancers sampleConfig bothRegions) joined res) \<and>
   map_option (\<lambda>s. (stuck s, map LoadBalancerInfo.DNSName (allRecs s), tasks s))
     (run [Task 0, Task 0, Task 1, Task 1] (fetchAllLoadBalancers sampleConfig bothRegions))
   = Some (True, [''web-1.us-east-1.elb.amazonaws.com''],
           [[SendErr ''failed to fetch LoadBalancers in region eu-west-1: AuthFailure'']])"
proof -
  have a: "''eu-west-1'' \<in> set bothRegions" by (simp add: bothRegions_def)
  have b: "\<not> lbs_listed sampleConfig ''eu-west-1''" by code_simp
  have "\<not> (\<exists>res. returns (fetchAllLoadBalancers sampleConfig bothRegions) joined res)"
    using overfull_call(1) [OF fetchAllLoadBalancers_inv fetchAllLoadBalancers_overfull [OF a b],
        where ret = joined] by simp
  moreover have "map_option (\<lambda>s. (stuck s, map LoadBalancerInfo.DNSName (allRecs s), tasks s))
     (run [Task 0, Task 0, Task 1, Task 1] (fetchAllLoadBalancers sampleConfig bothRegions))
   = Some (True, [''web-1.us-east-1.elb.amazonaws.com''],
           [[SendErr ''failed to fetch LoadBalancers in region eu-west-1: AuthFailure'']])"
    by code_simp
  ultimately show ?thesis by blast
qed

text \<open>
  Claim C9, as stated, speaks of the two channels of every collector. The instances
  collector has none: its goroutines append to the shared slice under the mutex, the
  caller itself waits for the wait group, there is no closing goroutine, and the call
  returns with nothing closed.
\<close>

theorem instances_call_closes_no_channel:
  "map_option (\<lambda>s. (caller s, resClosed s, errClosed s, map EC2InstanceInfo.InstanceID (allRecs s)))
     (run instancesSchedule (fetchAllInstances sampleConfig bothRegions))
   = Some (Returned, False, False, [''i-0aa1'']) \<and>
   step Closer (fetchAllInstances sampleConfig bothRegions) = None"
  by code_simp

text \<open>
  Claim C9, amended. In every call of the Elastic IP and of the network interface
  collector, and in every call of the load-balancer collector in which both listings
  succeed in every region, each channel is closed once, by the closing goroutine, after
  every goroutine of the pool (the per-record goroutines of the load balancers included)
  has ended; no send meets a closed channel; and the drain of the results and then of the
  errors channel ends under every schedule, with both channels closed and empty at the
  \<^verbatim>\<open>return\<close>. The goroutines of the model have no operation that closes a channel,
  as the goroutines of the source have none.
\<close>

theorem channels_closed_once_after_producers:
  "closes_after_producers (fetchAllEIPs cfg regions) \<and>
   closes_after_producers (fetchAllENIs cfg regions) \<and>
   (list_all (lbs_listed cfg) regions \<longrightarrow>
      closes_after_producers (fetchAllLoadBalancers cfg regions))"
proof (intro conjI impI)
  show "closes_after_producers (fetchAllEIPs cfg regions)"
    using fetchAllEIPs_inv [of cfg regions] by (simp add: chan_closes_after_producers)
  show "closes_after_producers (fetchAllENIs cfg regions)"
    using fetchAllENIs_inv [of cfg regions] by (simp add: chan_closes_after_producers)
  show "closes_after_producers (fetchAllLoadBalancers cfg regions)"
    if "list_all (lbs_listed cfg) regions"
    by (rule chan_closes_after_producers [OF fetchAllLoadBalancers_inv fetchAllLoadBalancers_fit [OF that]])
qed

theorem channels_closed_once_after_producers_witness:
  "(\<exists>s. run eipsSchedule (fetchAllEIPs sampleConfig bothRegions) = Some s \<and>
      caller s = Returned \<and> resClosed s \<and> errClosed s \<and> closer s = Finished \<and>
      tasks s = [] \<and> \<not> panicked s) \<and>
   (\<exists>s. run lbsSchedule (fetchAllLoadBalancers sampleConfig [''us-east-1'']) = Some s \<and>
      caller s = Returned \<and> resClosed s \<and> errClosed s \<and> closer s = Finished \<and>
      tasks s = [] \<and> \<not> panicked s)"
proof (intro conjI)
  note T = channels_closed_once_after_producers [of sampleConfig bothRegions]
  have "case run eipsSchedule (fetchAllEIPs sampleConfig bothRegions) of
          None \<Rightarrow> False | Some s \<Rightarrow> caller s = Returned"
    by code_simp
  then obtain s where s: "run eipsSchedule (fetchAllEIPs sampleConfig bothRegions) = Some s"
    "caller s = Returned" by (auto split: option.splits)
  from T have "closes_after_producers (fetchAllEIPs sampleConfig bothRegions)" by (elim conjE)
  with s have "resClosed s \<and> errClosed s \<and> closer s = Finished \<and> tasks s = [] \<and> \<not> panicked s"
    unfolding closes_after_producers_def by blast
  with s show "\<exists>s. run eipsSchedule (fetchAllEIPs sampleConfig bothRegions) = Some s \<and>
      caller s = Returned \<and> resClosed s \<and> errClosed s \<and> closer s = Finished \<and>
      tasks s = [] \<and> \<not> panicked s" by blast
next
  note T = channels_closed_once_after_producers [of sampleConfig "[''us-east-1'']"]
  have "case run lbsSchedule (fetchAllLoadBalancers sampleConfig [''us-east-1'']) of
          None \<Rightarrow> False | Some s \<Rightarrow> caller s = Returned"
    by code_simp
  then obtain s where s: "run lbsSchedule (fetchAllLoadBalancers sampleConfig [''us-east-1'']) = Some s"
    "caller s = Returned" by (auto split: option.splits)
  have "list_all (lbs_listed sampleConfig) [''us-east-1'']" by code_simp
  with T have "closes_after_producers (fetchAllLoadBalancers sampleConfig [''us-east-1''])" by blast
  with s have "resClosed s \<and> errClosed s \<and> closer s = Finished \<and> tasks s = [] \<and> \<not> panicked s"
    unfolding closes_after_producers_def by blast
  with s show "\<exists>s. run lbsSchedule (fetchAllLoadBalancers sampleConfig [''us-east-1'']) = Some s \<and>
      caller s = Returned \<and> resClosed s \<and> errClosed s \<and> closer s = Finished \<and>
      tasks s = [] \<and> \<not> panicked s" by blast
qed

text \<open>
  Claim C1, as stated, fails. The instances collector returns a nil error although the
  fetch of \<^verbatim>\<open>eu-west-1\<close> failed: the failure is written to the log only. And the
  Elastic IP collector returns a non-nil error although its only regional fetch
  succeeded: a failed association lookup is reported too.
\<close>

theorem instances_failure_returns_nil:
  "fetchInstancesInRegion sampleConfig ''eu-west-1''
     = Inl ''failed to describe instances in region eu-west-1: AuthFailure'' \<and>
   map_option (\<lambda>s. (caller s, instancesReturn s, logged s))
     (run instancesSchedule (fetchAllInstances sampleConfig bothRegions))
     = Some (Returned,
         ([\<lparr>EC2InstanceInfo.Region = ''us-east-1'', NameTag = ''web'', InstanceState = ''running'',
            InstanceID = ''i-0aa1'', PublicIP = ''198.51.100.7'', VPCID = ''vpc-1'',
            SubnetID = ''subnet-1'', Cost = 3.65\<rparr>], None),
         [''Failed to fetch instances in region eu-west-1: failed to describe instances in region eu-west-1: AuthFailure'']) \<and>
   \<not> isl (fetchEIPsInRegion natOutageConfig ''us-east-1'') \<and>
   map_option (\<lambda>s. (caller s, joined s))
     (run natOutageSchedule (fetchAllEIPs natOutageConfig [''us-east-1'']))
     = Some (Returned,
         [\<lparr>EIPInfo.Region = ''us-east-1'', PublicIP = ''203.0.113.10'', AssociationTarget = [],
            NameTag = [], Cost = 7.3\<rparr>],
         Some (ErrorString
           ''failed to describe EIP associations in region us-east-1: RequestLimitExceeded''))"
  by code_simp

text \<open>
  Claim C1, amended. For the Elastic IP and the network interface collector, over any
  region list, the call always returns, and it returns the records its region goroutines
  sent together with nil when no goroutine reported a failure, and otherwise the error
  made from the \<^verbatim>\<open>"; "\<close>-join of every reported message, in some order. A region
  reports at most one message; a failed regional fetch is reported with the text shown
  and leaves no record of that region. The error is nil exactly when every regional
  fetch succeeds (and, for Elastic IPs, every association lookup of an address not
  attached to an instance). The instances collector always returns, with every record
  and a nil error. The load-balancer collector, when both listings succeed in every
  region, always returns its records with a nil error.
\<close>

theorem collectors_combine_failures:
  "gathers (fetchAllEIPs cfg regions) (pool_recs (map (eipsTask cfg) regions))
     (pool_errs (map (eipsTask cfg) regions)) \<and>
   gathers (fetchAllENIs cfg regions) (pool_recs (map (enisTask cfg) regions))
     (pool_errs (map (enisTask cfg) regions)) \<and>
   (\<forall>rs e. returns (fetchAllEIPs cfg regions) joined (rs, e) \<longrightarrow>
      (e = None \<longleftrightarrow> list_all (eips_described cfg) regions)) \<and>
   (\<forall>rs e. returns (fetchAllENIs cfg regions) joined (rs, e) \<longrightarrow>
      (e = None \<longleftrightarrow> list_all (\<lambda>r. \<not> isl (fetchENIsInRegion cfg r)) regions)) \<and>
   (\<forall>r. size (prog_errs (eipsTask cfg r)) \<le> 1 \<and> size (prog_errs (enisTask cfg r)) \<le> 1) \<and>
   (\<forall>r m. fetchEIPsInRegion cfg r = Inl m \<longrightarrow>
      prog_errs (eipsTask cfg r) = {#''failed to fetch EIPs in region '' @ r @ '': '' @ m#} \<and>
      prog_recs (eipsTask cfg r) = {#}) \<and>
   (\<forall>r m. fetchENIsInRegion cfg r = Inl m \<longrightarrow>
      prog_errs (enisTask cfg r) = {#''Failed to fetch ENIs in region '' @ r @ '': '' @ m#} \<and>
      prog_recs (enisTask cfg r) = {#}) \<and>
   always_returns (fetchAllInstances cfg regions) \<and>
   (\<forall>res. returns (fetchAllInstances cfg regions) instancesReturn res \<longrightarrow>
      snd res = None \<and> mset (fst res) = pool_recs (map (instancesTask cfg) regions)) \<and>
   (list_all (lbs_listed cfg) regions \<longrightarrow>
      gathers (fetchAllLoadBalancers cfg regions) (pool_recs (map (lbsTask cfg) regions)) {#})"
proof (intro conjI allI impI)
  show eip: "gathers (fetchAllEIPs cfg regions) (pool_recs (map (eipsTask cfg) regions))
     (pool_errs (map (eipsTask cfg) regions))"
    by (rule fetchAllEIPs_gathers)
  show eni: "gathers (fetchAllENIs cfg regions) (pool_recs (map (enisTask cfg) regions))
     (pool_errs (map (enisTask cfg) regions))"
    by (rule fetchAllENIs_gathers)
  show "e = None \<longleftrightarrow> list_all (eips_described cfg) regions"
    if "returns (fetchAllEIPs cfg regions) joined (rs, e)" for rs e
    using gathers_nil_iff [OF eip that]
    by (simp add: pool_errs_empty_iff eipsTask_errs_iff list_all_iff)
  show "e = None \<longleftrightarrow> list_all (\<lambda>r. \<not> isl (fetchENIsInRegion cfg r)) regions"
    if "returns (fetchAllENIs cfg regions) joined (rs, e)" for rs e
  proof -
    have "prog_errs (enisTask cfg r) = {#} \<longleftrightarrow> \<not> isl (fetchENIsInRegion cfg r)" for r
      by (cases "fetchENIsInRegion cfg r") (simp_all add: enisTask_fetch_failed enisTask_fetched)
    with gathers_nil_iff [OF eni that] show ?thesis
      by (simp add: pool_errs_empty_iff list_all_iff)
  qed
  show "size (prog_errs (eipsTask cfg r)) \<le> 1" for r by (rule eipsTask_errs)
  show "size (prog_errs (enisTask cfg r)) \<le> 1" for r by (rule enisTask_errs)
  show "prog_errs (eipsTask cfg r) = {#''failed to fetch EIPs in region '' @ r @ '': '' @ m#}"
    "prog_recs (eipsTask cfg r) = {#}" if "fetchEIPsInRegion cfg r = Inl m" for r m
    using eipsTask_fetch_failed [OF that] by simp_all
  show "prog_errs (enisTask cfg r) = {#''Failed to fetch ENIs in region '' @ r @ '': '' @ m#}"
    "prog_recs (enisTask cfg r) = {#}" if "fetchENIsInRegion cfg r = Inl m" for r m
    using enisTask_fetch_failed [OF that] by simp_all
  show "always_returns (fetchAllInstances cfg regions)"
    by (rule wait_always_returns [OF fetchAllInstances_inv])
  show "snd res = None" "mset (fst res) = pool_recs (map (instancesTask cfg) regions)"
    if "returns (fetchAllInstances cfg regions) instancesReturn res" for res
    using instances_return_nil [OF that] by simp_all
  show "gathers (fetchAllLoadBalancers cfg regions) (pool_recs (map (lbsTask cfg) regions)) {#}"
    if "list_all (lbs_listed cfg) regions"
    by (rule fetchAllLoadBalancers_gathers [OF that])
qed

theorem collectors_combine_failures_witness:
  "(\<exists>rs e. returns (fetchAllEIPs sampleConfig bothRegions) joined (rs, e) \<and> e \<noteq> None) \<and>
   (\<exists>rs. returns (fetchAllENIs sampleConfig [''us-east-1'']) joined (rs, None)) \<and>
   (\<exists>rs. returns (fetchAllLoadBalancers sampleConfig [''us-east-1'']) joined (rs, None))"
proof (intro conjI)
  note eip = collectors_combine_failures [of sampleConfig bothRegions]
  from eip have "gathers (fetchAllEIPs sampleConfig bothRegions)
      (pool_recs (map (eipsTask sampleConfig) bothRegions))
      (pool_errs (map (eipsTask sampleConfig) bothRegions))" by blast
  from gathers_returns [OF this] obtain rs e
    where r: "returns (fetchAllEIPs sampleConfig bothRegions) joined (rs, e)" by blast
  have "\<not> list_all (eips_described sampleConfig) bothRegions" by code_simp
  with eip r have "e \<noteq> None" by blast
  with r show "\<exists>rs e. returns (fetchAllEIPs sampleConfig bothRegions) joined (rs, e) \<and> e \<noteq> None"
    by blast
next
  note eni = collectors_combine_failures [of sampleConfig "[''us-east-1'']"]
  from eni have "gathers (fetchAllENIs sampleConfig [''us-east-1''])
      (pool_recs (map (enisTask sampleConfig) [''us-east-1'']))
      (pool_errs (map (enisTask sampleConfig) [''us-east-1'']))" by blast
  from gathers_returns [OF this] obtain rs e
    where r: "returns (fetchAllENIs sampleConfig [''us-east-1'']) joined (rs, e)" by blast
  have "list_all (\<lambda>r. \<not> isl (fetchENIsInRegion sampleConfig r)) [''us-east-1'']" by code_simp
  with eni r have "e = None" by blast
  with r show "\<exists>rs. returns (fetchAllENIs sampleConfig [''us-east-1'']) joined (rs, None)" by blast
next
  have l: "list_all (lbs_listed sampleConfig) [''us-east-1'']" by code_simp
  with collectors_combine_failures [of sampleConfig "[''us-east-1'']"]
  have g: "gathers (fetchAllLoadBalancers sampleConfig [''us-east-1''])
      (pool_recs (map (lbsTask sampleConfig) [''us-east-1''])) {#}" by blast
  from gathers_returns [OF g] obtain rs e
    where r: "returns (fetchAllLoadBalancers sampleConfig [''us-east-1'']) joined (rs, e)" by blast
  from gathers_nil_iff [OF g r] have "e = None" by simp
  with r show "\<exists>rs. returns (fetchAllLoadBalancers sampleConfig [''us-east-1'']) joined (rs, None)"
    by blast
qed




section \<open>Which failures a collector records\<close>




section \<open>The cost of two Elastic IPs\<close>



section \<open>The metrics query: what a failure returns\<close>

lemma foldl_go_int_zero:
  "list_all (\<lambda>v. v = 0) values \<Longrightarrow> foldl (\<lambda>totalBytes v. totalBytes + go_int v) a values = a"
  by (induction "values" arbitrary: a) (simp_all add: go_int_def)

lemma sumFirstResult_zero: "zero_traffic results \<Longrightarrow> sumFirstResult results = 0"
  by (cases results) (simp_all add: zero_traffic_def sumFirstResult_def foldl_go_int_zero)

text \<open>
  Claim C10. \<^verbatim>\<open>fetchProcessedBytes\<close> returns \<open>-1\<close> for a load-balancer kind outside
  application, network and classic. For each of these three kinds it builds a query, and
  when that query fails it returns \<open>0\<close>, which is also what it returns for any account
  whose answer to the same query reports zero traffic: the returned value does not tell
  the two apart.
\<close>

theorem fetchProcessedBytes_failure_values:
  "(lbType \<notin> {''application'', ''network'', ''classic''} \<longrightarrow>
      fetchProcessedBytes cfg lbIdentifier lbType = - 1 \<and>
      sint (fetchProcessedBytes cfg lbIdentifier lbType) = - 1) \<and>
   (lbType \<in> {''application'', ''network'', ''classic''} \<longrightarrow>
      (\<exists>query. metricDataQuery lbIdentifier lbType = Some query \<and>
         (\<forall>e. GetMetricData cfg query = Inl e \<longrightarrow>
            fetchProcessedBytes cfg lbIdentifier lbType = 0 \<and>
            (\<forall>cfg' results. GetMetricData cfg' query = Inr results \<and> zero_traffic results \<longrightarrow>
               fetchProcessedBytes cfg' lbIdentifier lbType = fetchProcessedBytes cfg lbIdentifier lbType))))"
proof (intro conjI impI)
  assume "lbType \<notin> {''application'', ''network'', ''classic''}"
  then show neg: "fetchProcessedBytes cfg lbIdentifier lbType = - 1"
    by (simp add: fetchProcessedBytes_def metricDataQuery_def)
  then show "sint (fetchProcessedBytes cfg lbIdentifier lbType) = - 1"
    by simp
next
  assume "lbType \<in> {''application'', ''network'', ''classic''}"
  then obtain query where q: "metricDataQuery lbIdentifier lbType = Some query"
    by (auto simp: metricDataQuery_def)
  have "fetchProcessedBytes cfg lbIdentifier lbType = 0" if "GetMetricData cfg query = Inl e" for e
    using q that by (simp add: fetchProcessedBytes_def)
  moreover have "fetchProcessedBytes cfg' lbIdentifier lbType = 0"
    if "GetMetricData cfg' query = Inr results" "zero_traffic results" for cfg' results
    using q that by (simp add: fetchProcessedBytes_def sumFirstResult_zero)
  ultimately show "\<exists>query. metricDataQuery lbIdentifier lbType = Some query \<and>
         (\<forall>e. GetMetricData cfg query = Inl e \<longrightarrow>
            fetchProcessedBytes cfg lbIdentifier lbType = 0 \<and>
            (\<forall>cfg' results. GetMetricData cfg' query = Inr results \<and> zero_traffic results \<longrightarrow>
               fetchProcessedBytes cfg' lbIdentifier lbType = fetchProcessedBytes cfg lbIdentifier lbType))"
    using q by auto
qed

theorem fetchProcessedBytes_failure_values_witness:
  "fetchProcessedBytes throttledConfig ''arn'' ''gateway'' = - 1 \<and>
   fetchProcessedBytes throttledConfig ''app/web/50dc6c495c0c9188'' ''application'' = 0 \<and>
   fetchProcessedBytes quietConfig ''app/web/50dc6c495c0c9188'' ''application'' = 0"
proof -
  let ?id = "''app/web/50dc6c495c0c9188''"
  have a: "''gateway'' \<notin> {''application'', ''network'', ''classic''}" by simp
  have b: "''application'' \<in> {''application'', ''network'', ''classic''}" by simp
  from fetchProcessedBytes_failure_values [where lbType = "''gateway''" and cfg = throttledConfig and lbIdentifier = "''arn''"] a
  have 1: "fetchProcessedBytes throttledConfig ''arn'' ''gateway'' = - 1" by blast
  from fetchProcessedBytes_failure_values [where lbType = "''application''" and cfg = throttledConfig and lbIdentifier = ?id] b
  obtain query where q: "metricDataQuery ?id ''application'' = Some query"
    and f: "\<forall>e. GetMetricData throttledConfig query = Inl e \<longrightarrow>
            fetchProcessedBytes throttledConfig ?id ''application'' = 0 \<and>
            (\<forall>cfg' results. GetMetricData cfg' query = Inr results \<and> zero_traffic results \<longrightarrow>
               fetchProcessedBytes cfg' ?id ''application'' = fetchProcessedBytes throttledConfig ?id ''application'')"
    by blast
  have g: "GetMetricData throttledConfig query = Inl ''Throttling: Rate exceeded''"
    by (simp add: throttledConfig_def quietConfig_def)
  have h: "GetMetricData quietConfig query = Inr [[0, 0]]" "zero_traffic [[0, 0]]"
    by (simp_all add: quietConfig_def zero_traffic_def)
  from f g have 2: "fetchProcessedBytes throttledConfig ?id ''application'' = 0" by blast
  from f g h have "fetchProcessedBytes quietConfig ?id ''application'' = fetchProcessedBytes throttledConfig ?id ''application''" by blast
  with 1 2 show ?thesis by simp
qed

section \<open>The coordinator: one failing category aborts the scan\<close>

lemma unpackChannelData_all_ok:
  "delivered_ok ec2Ch \<and> delivered_ok lbCh \<and> delivered_ok eipCh \<and> delivered_ok eniCh \<Longrightarrow>
   \<exists>d. unpackChannelData ec2Ch lbCh eipCh eniCh = Inr d"
  by (auto simp: unpackChannelData_def receiveOrAbort_def delivered_ok_def
           split: select.splits option.splits sum.splits)

lemma unpackChannelData_aborts:
  "\<not> (delivered_ok ec2Ch \<and> delivered_ok lbCh \<and> delivered_ok eipCh \<and> delivered_ok eniCh) \<Longrightarrow>
   \<exists>e. unpackChannelData ec2Ch lbCh eipCh eniCh = Inl e"
  by (auto simp: unpackChannelData_def receiveOrAbort_def delivered_ok_def
           split: select.splits option.splits sum.splits)

lemma categoryData_failed:
  "categoryData widget (Inl e) = \<lparr>table = None, count = 0, cost = 0, err = Some e\<rparr>"
  by (simp add: categoryData_def fetchTableData_def)

lemma categoryChan_failed: "\<not> delivered_ok (categoryChan p widget (Inl e))"
  by (simp add: delivered_ok_def categoryChan_def categoryData_failed)

lemma categoryChan_ok: "delivered_ok (categoryChan p widget (Inr (rows, n, c)))"
  by (simp add: delivered_ok_def categoryChan_def categoryData_def fetchTableData_def)

lemma gathers_failed:
  assumes "gathers init recs (pool_errs (map f regions))" "returns init joined (rs, e)"
    "r \<in> set regions" "prog_errs (f r) \<noteq> {#}"
  shows "\<exists>e'. e = Some e'"
proof -
  from assms(3,4) have "pool_errs (map f regions) \<noteq> {#}"
    by (auto simp: pool_errs_empty_iff)
  with gathers_nil_iff [OF assms(1,2)] show ?thesis by auto
qed

text \<open>
  Claim C7, as stated, says that partial results within a category are tolerated. They
  are not for Elastic IPs: the collector returns the two records of \<^verbatim>\<open>us-east-1\<close>
  together with the error of \<^verbatim>\<open>eu-west-1\<close>, the table function drops the records and
  hands on the error, and the scan, whose three other categories all delivered a table,
  returns that error and nothing else.
\<close>

theorem partial_category_result_aborts_scan:
  "map_option (\<lambda>s. (caller s, joined s))
     (run eipsSchedule (fetchAllEIPs sampleConfig bothRegions))
   = Some (Returned,
       [\<lparr>EIPInfo.Region = ''us-east-1'', PublicIP = ''203.0.113.10'', AssociationTarget = [],
          NameTag = [], Cost = 7.3\<rparr>,
        \<lparr>EIPInfo.Region = ''us-east-1'', PublicIP = ''203.0.113.11'',
          AssociationTarget = ''NAT Gateway: nat-0a1'', NameTag = ''egress'', Cost = 3.65\<rparr>],
       Some (ErrorString
         ''failed to fetch EIPs in region eu-west-1: failed to describe EIPs in region eu-west-1: AuthFailure'')) \<and>
   map_option
     (\<lambda>s. unpackChannelData
        (categoryChan ''0xc000102060'' InstancesTable (createAndPopulateInstancesTable id ([], None)))
        (categoryChan ''0xc0001020c0'' LBTable (createAndPopulateLBTable id ([], None)))
        (categoryChan ''0xc000102120'' EIPsTable (createAndPopulateEIPsTable id (joined s)))
        (categoryChan ''0xc000102180'' ENIsTable (createAndPopulateENIsTable id ([], None))))
     (run eipsSchedule (fetchAllEIPs sampleConfig bothRegions))
   = Some (Inl (ErrorString
       ''failed to fetch EIPs in region eu-west-1: failed to describe EIPs in region eu-west-1: AuthFailure''))"
  by code_simp

text \<open>
  Claim C7, amended. If any of the four categories delivers a failure, times out, or has
  its channel closed without a message, \<^verbatim>\<open>unpackChannelData\<close> returns an error and
  nothing else: the result is the left injection, which holds no table, count or cost
  of the categories that did succeed. A failure inside a category is such a failure:
  when the Elastic IP collector returns and one region of the list failed its listing or
  an association lookup, or when the network interface collector returns and one region
  failed its listing, the returned error is not nil, the table function of the category
  returns that error without table, count or cost, the message on the channel carries
  the error, and the scan that receives it aborts. The load-balancer table function
  treats every error of its collector the same way. Only the instance category
  tolerates failed regions: its collector returns the records of the regions that
  succeeded with a nil error, and its table function builds the table from them.
\<close>

theorem failure_inside_a_category_aborts_scan:
  fixes ec2Ch lbCh eipCh eniCh :: "Table Chan"
  shows
  "(\<not> (delivered_ok ec2Ch \<and> delivered_ok lbCh \<and> delivered_ok eipCh \<and> delivered_ok eniCh) \<longrightarrow>
      (\<exists>e. unpackChannelData ec2Ch lbCh eipCh eniCh = Inl e)) \<and>
   (\<forall>rs e r. returns (fetchAllEIPs cfg regions) joined (rs, e) \<and> r \<in> set regions \<and>
        \<not> eips_described cfg r \<longrightarrow>
      (\<exists>e'. e = Some e' \<and> createAndPopulateEIPsTable sortEIPs (rs, e) = Inl e' \<and>
         categoryData EIPsTable (createAndPopulateEIPsTable sortEIPs (rs, e))
           = \<lparr>table = None, count = 0, cost = 0, err = Some e'\<rparr> \<and>
         (\<exists>e''. unpackChannelData ec2Ch lbCh
                  (categoryChan p EIPsTable (createAndPopulateEIPsTable sortEIPs (rs, e))) eniCh
                = Inl e''))) \<and>
   (\<forall>rs e r. returns (fetchAllENIs cfg regions) joined (rs, e) \<and> r \<in> set regions \<and>
        isl (fetchENIsInRegion cfg r) \<longrightarrow>
      (\<exists>e'. e = Some e' \<and> createAndPopulateENIsTable sortENIs (rs, e) = Inl e' \<and>
         categoryData ENIsTable (createAndPopulateENIsTable sortENIs (rs, e))
           = \<lparr>table = None, count = 0, cost = 0, err = Some e'\<rparr> \<and>
         (\<exists>e''. unpackChannelData ec2Ch lbCh eipCh
                  (categoryChan p ENIsTable (createAndPopulateENIsTable sortENIs (rs, e)))
                = Inl e''))) \<and>
   (\<forall>rs e. createAndPopulateLBTable sortLBs (rs, Some e) = Inl e \<and>
      (\<exists>e''. unpackChannelData ec2Ch
               (categoryChan p LBTable (createAndPopulateLBTable sortLBs (rs, Some e))) eipCh eniCh
             = Inl e'')) \<and>
   (\<forall>sched s. run sched (fetchAllInstances cfg regions) = Some s \<and> caller s = Returned \<longrightarrow>
      mset (allRecs s) = pool_recs (map (instancesTask cfg) regions) \<and>
      createAndPopulateInstancesTable sortInstances (instancesReturn s)
        = Inr (sortInstances (allRecs s), int (length (sortInstances (allRecs s))),
               foldl (\<lambda>totalCost instanceInfo. totalCost + EC2InstanceInfo.Cost instanceInfo) 0
                 (sortInstances (allRecs s))) \<and>
      delivered_ok
        (categoryChan p InstancesTable
           (createAndPopulateInstancesTable sortInstances (instancesReturn s))))"
proof (intro conjI allI impI)
  show "\<exists>e. unpackChannelData ec2Ch lbCh eipCh eniCh = Inl e"
    if "\<not> (delivered_ok ec2Ch \<and> delivered_ok lbCh \<and> delivered_ok eipCh \<and> delivered_ok eniCh)"
    by (rule unpackChannelData_aborts [OF that])
  show "\<exists>e'. e = Some e' \<and> createAndPopulateEIPsTable sortEIPs (rs, e) = Inl e' \<and>
         categoryData EIPsTable (createAndPopulateEIPsTable sortEIPs (rs, e))
           = \<lparr>table = None, count = 0, cost = 0, err = Some e'\<rparr> \<and>
         (\<exists>e''. unpackChannelData ec2Ch lbCh
                  (categoryChan p EIPsTable (createAndPopulateEIPsTable sortEIPs (rs, e))) eniCh
                = Inl e'')"
    if h: "returns (fetchAllEIPs cfg regions) joined (rs, e) \<and> r \<in> set regions \<and>
        \<not> eips_described cfg r" for rs e r
  proof -
    from h have "prog_errs (eipsTask cfg r) \<noteq> {#}" by (simp add: eipsTask_errs_iff)
    with gathers_failed [OF fetchAllEIPs_gathers, of cfg regions rs e r] h
    obtain e' where e: "e = Some e'" by blast
    then have t: "createAndPopulateEIPsTable sortEIPs (rs, e) = Inl e'"
      by (simp add: createAndPopulateEIPsTable_def)
    have "\<exists>e''. unpackChannelData ec2Ch lbCh (categoryChan p EIPsTable (Inl e')) eniCh = Inl e''"
      by (rule unpackChannelData_aborts) (simp add: categoryChan_failed)
    with e t show ?thesis by (simp add: categoryData_failed)
  qed
  show "\<exists>e'. e = Some e' \<and> createAndPopulateENIsTable sortENIs (rs, e) = Inl e' \<and>
         categoryData ENIsTable (createAndPopulateENIsTable sortENIs (rs, e))
           = \<lparr>table = None, count = 0, cost = 0, err = Some e'\<rparr> \<and>
         (\<exists>e''. unpackChannelData ec2Ch lbCh eipCh
                  (categoryChan p ENIsTable (createAndPopulateENIsTable sortENIs (rs, e)))
                = Inl e'')"
    if h: "returns (fetchAllENIs cfg regions) joined (rs, e) \<and> r \<in> set regions \<and>
        isl (fetchENIsInRegion cfg r)" for rs e r
  proof -
    from h obtain m where "fetchENIsInRegion cfg r = Inl m"
      by (cases "fetchENIsInRegion cfg r") auto
    from enisTask_fetch_failed [OF this] have "prog_errs (enisTask cfg r) \<noteq> {#}" by auto
    with gathers_failed [OF fetchAllENIs_gathers, of cfg regions rs e r] h
    obtain e' where e: "e = Some e'" by blast
    then have t: "createAndPopulateENIsTable sortENIs (rs, e) = Inl e'"
      by (simp add: createAndPopulateENIsTable_def)
    have "\<exists>e''. unpackChannelData ec2Ch lbCh eipCh (categoryChan p ENIsTable (Inl e')) = Inl e''"
      by (rule unpackChannelData_aborts) (simp add: categoryChan_failed)
    with e t show ?thesis by (simp add: categoryData_failed)
  qed
  show t: "createAndPopulateLBTable sortLBs (rs, Some e) = Inl e" for rs e
    by (simp add: createAndPopulateLBTable_def)
  show "\<exists>e''. unpackChannelData ec2Ch
               (categoryChan p LBTable (createAndPopulateLBTable sortLBs (rs, Some e))) eipCh eniCh
             = Inl e''" for rs e
    unfolding t by (rule unpackChannelData_aborts) (simp add: categoryChan_failed)
  show "mset (allRecs s) = pool_recs (map (instancesTask cfg) regions)"
    if "run sched (fetchAllInstances cfg regions) = Some s \<and> caller s = Returned" for sched s
    using wait_returned_conserved(1) [OF fetchAllInstances_inv conjunct1 [OF that] conjunct2 [OF that]]
    by (simp add: fetchAllInstances_def)
  show t: "createAndPopulateInstancesTable sortInstances (instancesReturn s)
        = Inr (sortInstances (allRecs s), int (length (sortInstances (allRecs s))),
               foldl (\<lambda>totalCost instanceInfo. totalCost + EC2InstanceInfo.Cost instanceInfo) 0
                 (sortInstances (allRecs s)))" for s
    by (simp add: createAndPopulateInstancesTable_def instancesReturn_def Let_def)
  show "delivered_ok
        (categoryChan p InstancesTable
           (createAndPopulateInstancesTable sortInstances (instancesReturn s)))" for s
    unfolding t by (rule categoryChan_ok)
qed

theorem failure_inside_a_category_aborts_scan_witness:
  "\<exists>rs e'. returns (fetchAllEIPs sampleConfig bothRegions) joined (rs, Some e') \<and> length rs = 2 \<and>
     createAndPopulateEIPsTable id (rs, Some e') = Inl e' \<and>
     (\<exists>e''. unpackChannelData
        (categoryChan ''0xc000102060'' InstancesTable (createAndPopulateInstancesTable id ([], None)))
        (categoryChan ''0xc0001020c0'' LBTable (createAndPopulateLBTable id ([], None)))
        (categoryChan ''0xc000102120'' EIPsTable (createAndPopulateEIPsTable id (rs, Some e')))
        (categoryChan ''0xc000102180'' ENIsTable (createAndPopulateENIsTable id ([], None)))
      = Inl e'')"
proof -
  let ?ec2 = "categoryChan ''0xc000102060'' InstancesTable (createAndPopulateInstancesTable id ([], None))"
  let ?lb = "categoryChan ''0xc0001020c0'' LBTable (createAndPopulateLBTable id ([], None))"
  let ?eni = "categoryChan ''0xc000102180'' ENIsTable (createAndPopulateENIsTable id ([], None))"
  have "case run eipsSchedule (fetchAllEIPs sampleConfig bothRegions) of
          None \<Rightarrow> False
        | Some s \<Rightarrow> caller s = Returned \<and> length (fst (joined s)) = 2"
    by code_simp
  then obtain s where s: "run eipsSchedule (fetchAllEIPs sampleConfig bothRegions) = Some s"
    "caller s = Returned" "length (fst (joined s)) = 2"
    by (auto split: option.splits)
  obtain rs e where j: "joined s = (rs, e)" by (cases "joined s")
  with s have r: "returns (fetchAllEIPs sampleConfig bothRegions) joined (rs, e)"
    unfolding returns_def by blast
  have in2: "''eu-west-1'' \<in> set bothRegions" by (simp add: bothRegions_def)
  have nd: "\<not> eips_described sampleConfig ''eu-west-1''" by code_simp
  from failure_inside_a_category_aborts_scan
    [of ?ec2 ?lb "categoryChan ''0xc000102120'' EIPsTable (Inr ([], 0, 0))" ?eni
        sampleConfig bothRegions id "''0xc000102120''" id id id]
  have "\<forall>rs e r. returns (fetchAllEIPs sampleConfig bothRegions) joined (rs, e) \<and>
        r \<in> set bothRegions \<and> \<not> eips_described sampleConfig r \<longrightarrow>
      (\<exists>e'. e = Some e' \<and> createAndPopulateEIPsTable id (rs, e) = Inl e' \<and>
         categoryData EIPsTable (createAndPopulateEIPsTable id (rs, e))
           = \<lparr>table = None, count = 0, cost = 0, err = Some e'\<rparr> \<and>
         (\<exists>e''. unpackChannelData ?ec2 ?lb
                  (categoryChan ''0xc000102120'' EIPsTable (createAndPopulateEIPsTable id (rs, e))) ?eni
                = Inl e''))"
    by (elim conjE)
  with r in2 nd obtain e' where "e = Some e'" "createAndPopulateEIPsTable id (rs, e) = Inl e'"
    "\<exists>e''. unpackChannelData ?ec2 ?lb
        (categoryChan ''0xc000102120'' EIPsTable (createAndPopulateEIPsTable id (rs, e))) ?eni
      = Inl e''"
    by blast
  note f = this
  from j s(3) have "length rs = 2" by simp
  with r f show ?thesis by blast
qed

text \<open>
  Claim C2, as stated, asks that the error of a timed-out or closed channel names the
  failing category. It does not for a closed channel: the scan in which the network
  interface channel is closed and the scan in which the instance channel is closed end
  with the same error, a fixed text.
\<close>

theorem closed_channel_error_names_no_category:
  "unpackChannelData (delivered ''0xc000102060'' ''EC2 Instances costs'' 2 7.3)
     (delivered ''0xc0001020c0'' ''Load balancer costs'' 3 10.95)
     (delivered ''0xc000102120'' ''Elastic IPs'' 1 7.3)
     (closedChan ''0xc000102180'')
   = Inl (ErrorString ''channel was closed before data was received'') \<and>
   unpackChannelData (closedChan ''0xc000102060'')
     (delivered ''0xc0001020c0'' ''Load balancer costs'' 3 10.95)
     (delivered ''0xc000102120'' ''Elastic IPs'' 1 7.3)
     (delivered ''0xc000102180'' ''Elastic Network Interfaces with Public IPs'' 3 10.95)
   = Inl (ErrorString ''channel was closed before data was received'')"
  by (simp add: unpackChannelData_def receiveOrAbort_def delivered_def closedChan_def
      fetchTableData_def)

text \<open>
  Claim C2, amended. Whenever one of the four category channels times out or is closed
  without a message, \<^verbatim>\<open>unpackChannelData\<close> aborts the whole scan with an error and no
  data; when the first channel in the waiting order (network interfaces, instances, load
  balancers, Elastic IPs) that fails to deliver a successful message is a closed one,
  the error is the fixed text \<open>closedError\<close>, the same for every category.
\<close>

theorem unpackChannelData_timeout_or_closed:
  "delivers ec2Ch \<in> {ChannelClosed, Timeout} \<or> delivers lbCh \<in> {ChannelClosed, Timeout} \<or>
   delivers eipCh \<in> {ChannelClosed, Timeout} \<or> delivers eniCh \<in> {ChannelClosed, Timeout} \<Longrightarrow>
   (\<exists>e. unpackChannelData ec2Ch lbCh eipCh eniCh = Inl e) \<and>
   (delivers eniCh = ChannelClosed \<longrightarrow>
      unpackChannelData ec2Ch lbCh eipCh eniCh = Inl closedError) \<and>
   (delivered_ok eniCh \<and> delivers ec2Ch = ChannelClosed \<longrightarrow>
      unpackChannelData ec2Ch lbCh eipCh eniCh = Inl closedError) \<and>
   (delivered_ok eniCh \<and> delivered_ok ec2Ch \<and> delivers lbCh = ChannelClosed \<longrightarrow>
      unpackChannelData ec2Ch lbCh eipCh eniCh = Inl closedError) \<and>
   (delivered_ok eniCh \<and> delivered_ok ec2Ch \<and> delivered_ok lbCh \<and> delivers eipCh = ChannelClosed \<longrightarrow>
      unpackChannelData ec2Ch lbCh eipCh eniCh = Inl closedError)"
  by (auto simp: unpackChannelData_def receiveOrAbort_def delivered_ok_def closedError_def
           split: select.splits option.splits sum.splits)

theorem unpackChannelData_timeout_or_closed_witness:
  "unpackChannelData (delivered ''0xc000102060'' ''EC2 Instances costs'' 2 7.3)
     (closedChan ''0xc0001020c0'') (silentChan ''0xc000102120'')
     (delivered ''0xc000102180'' ''Elastic Network Interfaces with Public IPs'' 3 10.95)
   = Inl closedError"
proof -
  let ?ec2 = "delivered ''0xc000102060'' ''EC2 Instances costs'' 2 7.3"
  let ?eni = "delivered ''0xc000102180'' ''Elastic Network Interfaces with Public IPs'' 3 10.95"
  let ?lb = "closedChan ''0xc0001020c0''"
  let ?eip = "silentChan ''0xc000102120''"
  have 1: "delivers ?lb = ChannelClosed" by (simp add: closedChan_def)
  have 2: "delivered_ok ?eni" "delivered_ok ?ec2"
    by (simp_all add: delivered_ok_def delivered_def fetchTableData_def)
  from 1 have "delivers ?ec2 \<in> {ChannelClosed, Timeout} \<or> delivers ?lb \<in> {ChannelClosed, Timeout} \<or>
   delivers ?eip \<in> {ChannelClosed, Timeout} \<or> delivers ?eni \<in> {ChannelClosed, Timeout}" by simp
  from unpackChannelData_timeout_or_closed [OF this] 1 2 show ?thesis by blast
qed

end
